theory Spec2Isabelle
  imports Complex_Main "HOL-Library.AList"
begin

section \<open>Python values used by the optimizer wrapper\<close>

text \<open>
  The exceptions the modelled code can raise.  A call that raises returns \<open>Inl e\<close>;
  a call that returns normally returns \<open>Inr\<close> of the new state (and its result).
\<close>

datatype py_error =
  ZeroDivisionError | IndexError | KeyError | ValueError | AttributeError | TypeError |
  RuntimeError

definition bind_e :: "py_error + 'x \<Rightarrow> ('x \<Rightarrow> py_error + 'y) \<Rightarrow> py_error + 'y" where
  "bind_e m f = (case m of Inl e \<Rightarrow> Inl e | Inr v \<Rightarrow> f v)"

text \<open>
  A tensor is an opaque payload (contents, shape and dtype together, the type
  parameter \<open>'a\<close>) on a device.  \<open>clone\<close> copies, \<open>cpu\<close> and \<open>cuda\<close> move,
  \<open>copy_\<close> (here \<open>copy_t\<close>) overwrites the payload of the destination and keeps its device.
\<close>

datatype device = CPU | GPU

record 'a tensor =
  payload :: 'a
  device :: device

definition clone :: "'a tensor \<Rightarrow> 'a tensor" where
  "clone t = t"

definition cpu :: "'a tensor \<Rightarrow> 'a tensor" where
  "cpu t = t\<lparr>device := CPU\<rparr>"

definition cuda :: "'a tensor \<Rightarrow> 'a tensor" where
  "cuda t = t\<lparr>device := GPU\<rparr>"

definition copy_t :: "'a tensor \<Rightarrow> 'a tensor \<Rightarrow> 'a tensor" where
  "copy_t dst src = dst\<lparr>payload := payload src\<rparr>"

text \<open>
  A state dict is an ordered mapping from names to tensors: an association list,
  read with \<open>map_of\<close> and written with \<open>AList.update\<close> (an existing key keeps its
  place, a new key goes last, as in a Python dict).  A module is represented by its
  state dict: \<open>module.state_dict()\<close> reads it.
\<close>

type_synonym 'a state_dict = "(string \<times> 'a tensor) list"

text \<open>Python's \<open>sub in s\<close> on strings: \<open>sub\<close> occurs in \<open>s\<close> as a substring.\<close>

fun py_in :: "string \<Rightarrow> string \<Rightarrow> bool" where
  "py_in sub [] = (sub = [])"
| "py_in sub (c # cs) = (take (length sub) (c # cs) = sub \<or> py_in sub cs)"

text \<open>
  \<open>module.load_state_dict(state_dict)\<close> with its default \<open>strict=True\<close>: a missing or an
  unexpected key raises; otherwise every tensor of the module is overwritten in place
  with the entry of the same name.
\<close>

definition load_state_dict :: "'a state_dict \<Rightarrow> 'a state_dict \<Rightarrow> py_error + 'a state_dict" where
  "load_state_dict live state_dict =
     (if set (map fst state_dict) \<noteq> set (map fst live) then Inl RuntimeError
      else Inr (map (\<lambda>(key, t). (key, copy_t t (the (map_of state_dict key)))) live))"

text \<open>
  A parameter as the wrapper sees it: its gradient (\<open>p.grad\<close>, \<open>None\<close> when it has
  none).  The parameter's own tensor lives in the state of its module.
  \<open>master_parameters\<close> is what the caller handed over and what
  \<open>torch.optim\<close> receives: a list of parameters (one parameter group), or a list of
  parameter groups.
\<close>

record 'a param =
  grad :: "'a tensor option"

datatype 'a master = Tensors "'a param list" | Groups "'a param list list"

fun len_master :: "'a master \<Rightarrow> nat" where
  "len_master (Tensors ps) = length ps"
| "len_master (Groups gs) = length gs"

text \<open>The parameter groups an optimizer built from \<open>master_parameters\<close> holds.\<close>

fun groups_of :: "'a master \<Rightarrow> 'a param list list" where
  "groups_of (Tensors ps) = [ps]"
| "groups_of (Groups gs) = gs"

fun map_groups :: "('a param \<Rightarrow> 'a param) \<Rightarrow> 'a master \<Rightarrow> 'a master" where
  "map_groups f (Tensors ps) = Tensors (map f ps)"
| "map_groups f (Groups gs) = Groups (map (map f) gs)"

text \<open>Writing the parameters of the first group back (they are updated in place).\<close>

fun set_group0 :: "'a param list \<Rightarrow> 'a master \<Rightarrow> 'a master" where
  "set_group0 ps (Tensors _) = Tensors ps"
| "set_group0 ps (Groups []) = Groups []"
| "set_group0 ps (Groups (g # gs)) = Groups (ps # gs)"

section \<open>The collaborators\<close>

text \<open>
  The wrapped update algorithm, the tensor arithmetic, gradient clipping and the
  mixed-precision hooks are black boxes to the wrapper.  They are the fields of a
  record that every operation takes as its first argument:
  \<^item> \<open>optim_new name params\<close> is \<open>getattr(torch.optim, name)(params, **optimizer_args)\<close>,
    giving the internal state \<open>'o\<close> of the new optimizer;
  \<^item> \<open>optim_step\<close> is \<open>base_optimizer.step()\<close>: from the optimizer, the parameters and the
    modules (whose tensors the parameters are) to the updated three and the loss;
  \<^item> \<open>div_t\<close> is \<open>Tensor.div_\<close> by an integer, \<open>div_scale\<close> division by the loss scale;
  \<^item> \<open>clip_grad_norm\<close> is \<open>torch.nn.utils.clip_grad_norm_\<close>;
  \<^item> the last two are the hooks of \<open>apex.fp16_utils\<close>.
\<close>

record ('a, 'o, 'l) torch =
  optim_new :: "string \<Rightarrow> 'a master \<Rightarrow> py_error + 'o"
  optim_step :: "'o \<Rightarrow> 'a master \<Rightarrow> 'a state_dict list \<Rightarrow>
                 py_error + ('o \<times> 'a master \<times> 'a state_dict list \<times> 'l option)"
  div_t :: "'a \<Rightarrow> int \<Rightarrow> 'a"
  div_scale :: "'a \<Rightarrow> real \<Rightarrow> 'a"
  clip_grad_norm :: "'a param list \<Rightarrow> real \<Rightarrow> 'a param list"
  model_grads_to_master_grads :: "'a param list \<Rightarrow> 'a master \<Rightarrow> py_error + 'a master"
  master_params_to_model_params :: "'a param list \<Rightarrow> 'a master \<Rightarrow> 'o option \<Rightarrow>
                 'a state_dict list \<Rightarrow> py_error + 'a state_dict list"

section \<open>The optimizer with weight stashing\<close>

text \<open>
  A slot of the ring holds the tuple \<open>(state_dicts, version)\<close>, or, when \<open>save_dir\<close> is
  set, the name of the file that holds it.  The file
  \<open>os.path.join(save_dir, f"version_{k}.pth.tar")\<close> is the pair \<open>(save_dir, k)\<close>.
  A \<open>Version\<close> is immutable and wraps an integer, so it is that integer.
\<close>

type_synonym fname = "string \<times> int"

datatype 'a entry = Stashed "'a state_dict list" int | File fname

datatype out_line = Text string | Step_took

text \<open>
  The fields of the object, then the two parts of the world it writes: the files under
  \<open>save_dir\<close> (\<open>torch.save\<close>, \<open>torch.load\<close>) and what it has printed.
\<close>

record ('a, 'o) optimizer =
  modules :: "'a state_dict list"
  master_parameters :: "'a master"
  model_parameters :: "'a param list option"
  loss_scale :: real
  clip_grad :: "real option"
  save_dir :: "string option"
  stash_to_cpu :: bool
  num_versions :: int
  base_optimizer :: "'o option"
  latest_version :: int
  current_version :: int
  queue :: "'a entry list"
  buffered_state_dicts :: "'a state_dict list"
  verbose_freq :: int
  batch_counter :: int
  update_interval :: int
  files :: "fname \<Rightarrow> ('a state_dict list \<times> int) option"
  stdout :: "out_line list"

text \<open>\<open>deque.append\<close> on a deque built with \<open>maxlen\<close>: a full deque drops its leftmost item.\<close>

definition deque_append :: "int \<Rightarrow> 'x list \<Rightarrow> 'x \<Rightarrow> 'x list" where
  "deque_append maxlen q x =
     (if maxlen \<le> 0 then q
      else if maxlen \<le> int (length q) then tl q @ [x]
      else q @ [x])"

text \<open>
  \<open>xs[i]\<close> and \<open>xs[i] = x\<close> with a Python index: \<open>py_pos\<close> is the position the index
  \<open>i\<close> names in a list of length \<open>n\<close>, counted from the end when \<open>i\<close> is negative.
\<close>

definition py_pos :: "nat \<Rightarrow> int \<Rightarrow> nat option" where
  "py_pos n i =
     (if 0 \<le> i \<and> i < int n then Some (nat i)
      else if i < 0 \<and> - int n \<le> i then Some (nat (int n + i))
      else None)"

definition py_index :: "'x list \<Rightarrow> int \<Rightarrow> py_error + 'x" where
  "py_index xs i = (case py_pos (length xs) i of None \<Rightarrow> Inl IndexError | Some k \<Rightarrow> Inr (xs ! k))"

definition py_store :: "'x list \<Rightarrow> int \<Rightarrow> 'x \<Rightarrow> 'x list" where
  "py_store xs i x = (case py_pos (length xs) i of None \<Rightarrow> xs | Some k \<Rightarrow> xs[k := x])"

definition append_to_queue ::
  "('a, 'o) optimizer \<Rightarrow> 'a state_dict list \<times> int \<Rightarrow> py_error + ('a, 'o) optimizer" where
  "append_to_queue s data =
     (case data of (state_dicts, version) \<Rightarrow>
        (case save_dir s of
           Some dir \<Rightarrow>
             if num_versions s = 0 then Inl ZeroDivisionError
             else
               let fname = (dir, version mod num_versions s)
               in Inr (s\<lparr>files := (files s)(fname \<mapsto> (state_dicts, version)),
                         queue := deque_append (num_versions s) (queue s) (File fname)\<rparr>)
         | None \<Rightarrow>
             Inr (s\<lparr>queue := deque_append (num_versions s) (queue s)
                                 (Stashed state_dicts version)\<rparr>)))"

text \<open>
  \<open>get_from_queue\<close> branches on \<open>save_dir\<close> as the source does; a slot of the other kind
  (a tuple given to \<open>torch.load\<close>, a file name unpacked as a tuple) or a file that
  does not exist raises.
\<close>

definition get_from_queue ::
  "('a, 'o) optimizer \<Rightarrow> int \<Rightarrow> py_error + ('a state_dict list \<times> int)" where
  "get_from_queue s index =
     (case save_dir s of
        Some dir \<Rightarrow>
          bind_e (py_index (queue s) index) (\<lambda>e.
            case e of
              File fname \<Rightarrow> (case files s fname of None \<Rightarrow> Inl RuntimeError | Some d \<Rightarrow> Inr d)
            | Stashed _ _ \<Rightarrow> Inl TypeError)
      | None \<Rightarrow>
          bind_e (py_index (queue s) index) (\<lambda>e.
            case e of
              Stashed state_dicts version \<Rightarrow> Inr (state_dicts, version)
            | File _ \<Rightarrow> Inl TypeError))"

text \<open>
  \<open>get_params(clone=True)\<close>: a fresh copy of every tensor of every module, on the CPU
  when \<open>stash_to_cpu\<close> is set, tagged with \<open>latest_version\<close>.
\<close>

definition capture :: "bool \<Rightarrow> 'a tensor \<Rightarrow> 'a tensor" where
  "capture stash t = (if stash then cpu (clone t) else clone t)"

definition get_params_clone :: "('a, 'o) optimizer \<Rightarrow> 'a state_dict list \<times> int" where
  "get_params_clone s =
     (map (map (\<lambda>(key, t). (key, capture (stash_to_cpu s) t))) (modules s), latest_version s)"

text \<open>
  \<open>get_params(clone=False)\<close> overwrites the buffered state dicts from the live modules,
  key by key: a key with \<open>running_\<close> in it is skipped, a key with \<open>mask\<close> in it is
  rebound to a fresh copy, any other key is copied into the buffered tensor in place
  (\<open>KeyError\<close> when the buffered dict has no such key, \<open>IndexError\<close> when there is no
  buffered dict for the module).
\<close>

fun update_buffered :: "bool \<Rightarrow> 'a state_dict \<Rightarrow> 'a state_dict \<Rightarrow> py_error + 'a state_dict" where
  "update_buffered stash buffered [] = Inr buffered"
| "update_buffered stash buffered ((key, t) # rest) =
     (if py_in ''running_'' key then update_buffered stash buffered rest
      else if py_in ''mask'' key then
        update_buffered stash (AList.update key (capture stash t) buffered) rest
      else
        (case map_of buffered key of
           None \<Rightarrow> Inl KeyError
         | Some b \<Rightarrow>
             update_buffered stash
               (AList.update key (copy_t b (if stash then cpu t else t)) buffered) rest))"

fun update_buffered_all ::
  "bool \<Rightarrow> 'a state_dict list \<Rightarrow> 'a state_dict list \<Rightarrow> py_error + 'a state_dict list" where
  "update_buffered_all stash bs [] = Inr bs"
| "update_buffered_all stash [] (m # ms) =
     (if list_all (\<lambda>(key, t). py_in ''running_'' key) m then update_buffered_all stash [] ms
      else Inl IndexError)"
| "update_buffered_all stash (b # bs) (m # ms) =
     bind_e (update_buffered stash b m) (\<lambda>b'.
     bind_e (update_buffered_all stash bs ms) (\<lambda>bs'. Inr (b' # bs')))"

definition get_params_buffered ::
  "('a, 'o) optimizer \<Rightarrow> py_error + ('a, 'o) optimizer \<times> ('a state_dict list \<times> int)" where
  "get_params_buffered s =
     bind_e (update_buffered_all (stash_to_cpu s) (buffered_state_dicts s) (modules s)) (\<lambda>bs.
       Inr (s\<lparr>buffered_state_dicts := bs\<rparr>, (bs, latest_version s)))"

text \<open>
  \<open>initialize_queue\<close>: a deque of \<open>maxlen = num_versions\<close> (\<open>ValueError\<close> when that is
  negative), filled with \<open>num_versions\<close> full copies of the live state; the buffered
  state dicts start as those of slot 0.
\<close>

fun fill_queue :: "nat \<Rightarrow> ('a, 'o) optimizer \<Rightarrow> py_error + ('a, 'o) optimizer" where
  "fill_queue 0 s = Inr s"
| "fill_queue (Suc n) s = bind_e (append_to_queue s (get_params_clone s)) (fill_queue n)"

definition initialize_queue :: "('a, 'o) optimizer \<Rightarrow> py_error + ('a, 'o) optimizer" where
  "initialize_queue s =
     (if num_versions s < 0 then Inl ValueError
      else
        bind_e (fill_queue (nat (num_versions s)) (s\<lparr>queue := []\<rparr>)) (\<lambda>s'.
        bind_e (get_from_queue s' 0) (\<lambda>(state_dicts, version).
          Inr (s'\<lparr>buffered_state_dicts := state_dicts\<rparr>))))"

text \<open>
  The constructor, with the arguments of \<open>__init__\<close> in their order, after the
  collaborators and the files that exist when it is called.
\<close>

definition init ::
  "('a, 'o, 'l) torch \<Rightarrow> (fname \<Rightarrow> ('a state_dict list \<times> int) option) \<Rightarrow> string \<Rightarrow>
   'a state_dict list \<Rightarrow> 'a master \<Rightarrow> 'a param list option \<Rightarrow> real \<Rightarrow> int \<Rightarrow> int \<Rightarrow> bool \<Rightarrow>
   real option \<Rightarrow> string option \<Rightarrow> bool \<Rightarrow> py_error + ('a, 'o) optimizer" where
  "init T fs optim_name mods master model lscale nv vfreq macrobatch clip sdir stash =
     (let nv' = (if macrobatch then min 2 nv else nv) in
      bind_e (if len_master master = 0
              then Inr (None, [Text ''Warning: no parameter groups to optimize''])
              else bind_e (optim_new T optim_name master) (\<lambda>b. Inr (Some b, [])))
        (\<lambda>(base, out).
      bind_e (initialize_queue
               \<lparr>modules = mods, master_parameters = master, model_parameters = model,
                loss_scale = lscale, clip_grad = clip, save_dir = sdir, stash_to_cpu = stash,
                num_versions = nv', base_optimizer = base, latest_version = 0,
                current_version = 0, queue = [], buffered_state_dicts = [],
                verbose_freq = vfreq, batch_counter = 0,
                update_interval = (if macrobatch then nv' else 1),
                files = fs, stdout = out\<rparr>)
        Inr))"

text \<open>
  \<open>set_params\<close>, for one pair of \<open>zip(state_dicts, self.modules)\<close>: every key of the
  given state dict with \<open>running_\<close> or \<open>mask\<close> in it is rebound to the live tensor of
  that name (\<open>KeyError\<close> when the module has none), moved to the GPU when
  \<open>stash_to_cpu\<close> is set; then the module loads the state dict.  The loop that follows
  in the source walks to the attribute named by each mask key and assigns the tensor
  to a local variable: it changes nothing.
\<close>

fun rebind_live ::
  "bool \<Rightarrow> 'a state_dict \<Rightarrow> string list \<Rightarrow> 'a state_dict \<Rightarrow> py_error + 'a state_dict" where
  "rebind_live stash cur [] state_dict = Inr state_dict"
| "rebind_live stash cur (key # keys) state_dict =
     (if py_in ''running_'' key \<or> py_in ''mask'' key then
        (case map_of cur key of
           None \<Rightarrow> Inl KeyError
         | Some t \<Rightarrow>
             rebind_live stash cur keys
               (AList.update key (if stash then cuda t else t) state_dict))
      else rebind_live stash cur keys state_dict)"

fun set_params_loop ::
  "bool \<Rightarrow> 'a state_dict list \<Rightarrow> 'a state_dict list \<Rightarrow>
   py_error + ('a state_dict list \<times> 'a state_dict list)" where
  "set_params_loop stash [] ms = Inr ([], ms)"
| "set_params_loop stash (sd # sds) [] = Inr (sd # sds, [])"
| "set_params_loop stash (sd # sds) (m # ms) =
     bind_e (rebind_live stash m (map fst sd) sd) (\<lambda>sd'.
     bind_e (load_state_dict m sd') (\<lambda>m'.
     bind_e (set_params_loop stash sds ms) (\<lambda>(sds', ms').
       Inr (sd' # sds', m' # ms'))))"

text \<open>
  \<open>set_params\<close> returns the new state and the state dicts it was given as it leaves
  them: it writes into them.
\<close>

definition set_params ::
  "('a, 'o) optimizer \<Rightarrow> 'a state_dict list \<Rightarrow> int \<Rightarrow>
   py_error + (('a, 'o) optimizer \<times> 'a state_dict list)" where
  "set_params s state_dicts version =
     bind_e (set_params_loop (stash_to_cpu s) state_dicts (modules s)) (\<lambda>(sds', ms').
       Inr (s\<lparr>modules := ms', current_version := version\<rparr>, sds'))"

text \<open>
  \<open>load_old_params\<close> and \<open>load_new_params\<close>.  Without \<open>save_dir\<close> the state dicts that
  \<open>get_from_queue\<close> returns are the objects the slot holds, so what \<open>set_params\<close>
  writes into them is written into the slot; with \<open>save_dir\<close> they are a copy just
  loaded from the file, and the slot and the file stay as they are.
\<close>

definition write_slot ::
  "('a, 'o) optimizer \<Rightarrow> int \<Rightarrow> 'a state_dict list \<Rightarrow> int \<Rightarrow> ('a, 'o) optimizer" where
  "write_slot s index state_dicts version =
     (case save_dir s of
        Some dir \<Rightarrow> s
      | None \<Rightarrow> s\<lparr>queue := py_store (queue s) index (Stashed state_dicts version)\<rparr>)"

definition load_old_params :: "('a, 'o) optimizer \<Rightarrow> py_error + ('a, 'o) optimizer" where
  "load_old_params s =
     (if 1 < num_versions s then
        bind_e (get_from_queue s 0) (\<lambda>(state_dicts, version).
        bind_e (set_params s state_dicts version) (\<lambda>(s', sds').
          Inr (write_slot s' 0 sds' version)))
      else Inr s)"

definition load_new_params :: "('a, 'o) optimizer \<Rightarrow> py_error + ('a, 'o) optimizer" where
  "load_new_params s =
     (if 1 < num_versions s then
        bind_e (get_from_queue s (- 1)) (\<lambda>(state_dicts, version).
        bind_e (set_params s state_dicts version) (\<lambda>(s', sds').
          Inr (write_slot s' (- 1) sds' version)))
      else Inr s)"

text \<open>
  \<open>zero_grad\<close>.  \<open>base_optimizer.zero_grad()\<close> clears the gradient of every parameter
  of every group (sets it to \<open>None\<close>).  The modulus is evaluated only when there is
  a base optimizer.
\<close>

definition clear_grad :: "'a param \<Rightarrow> 'a param" where
  "clear_grad p = p\<lparr>grad := None\<rparr>"

definition zero_grad :: "('a, 'o) optimizer \<Rightarrow> py_error + ('a, 'o) optimizer" where
  "zero_grad s =
     (case base_optimizer s of
        None \<Rightarrow> Inr s
      | Some b \<Rightarrow>
          if update_interval s = 0 then Inl ZeroDivisionError
          else if batch_counter s mod update_interval s = 0 then
            Inr (s\<lparr>master_parameters := map_groups clear_grad (master_parameters s)\<rparr>)
          else Inr s)"

subsection \<open>step\<close>

text \<open>
  The body of \<open>step\<close> after the cadence test, block by block in the order of the
  source.  First the mixed-precision block: the hook, then, when \<open>loss_scale\<close> is not
  1.0, \<open>parameter.grad.data / loss_scale\<close> for every element of
  \<open>master_parameters\<close> (\<open>AttributeError\<close> for a parameter without a gradient and for a
  parameter group, which is a dict).
\<close>

fun unscale_params ::
  "('a \<Rightarrow> real \<Rightarrow> 'a) \<Rightarrow> real \<Rightarrow> 'a param list \<Rightarrow> py_error + 'a param list" where
  "unscale_params dv ls [] = Inr []"
| "unscale_params dv ls (p # ps) =
     (case grad p of
        None \<Rightarrow> Inl AttributeError
      | Some g \<Rightarrow>
          bind_e (unscale_params dv ls ps) (\<lambda>ps'.
            Inr (p\<lparr>grad := Some (g\<lparr>payload := dv (payload g) ls\<rparr>)\<rparr> # ps')))"

definition step_fp16_grads ::
  "('a, 'o, 'l) torch \<Rightarrow> ('a, 'o) optimizer \<Rightarrow> py_error + ('a, 'o) optimizer" where
  "step_fp16_grads T s =
     (case model_parameters s of
        None \<Rightarrow> Inr s
      | Some model \<Rightarrow>
          bind_e (model_grads_to_master_grads T model (master_parameters s)) (\<lambda>master.
            if loss_scale s \<noteq> 1 then
              (case master of
                 Tensors ps \<Rightarrow>
                   bind_e (unscale_params (div_scale T) (loss_scale s) ps) (\<lambda>ps'.
                     Inr (s\<lparr>master_parameters := Tensors ps'\<rparr>))
               | Groups [] \<Rightarrow> Inr (s\<lparr>master_parameters := master\<rparr>)
               | Groups (g # gs) \<Rightarrow> Inl AttributeError)
            else Inr (s\<lparr>master_parameters := master\<rparr>)))"

text \<open>
  \<open>self.param_groups[0]['params']\<close>: the attribute is relayed by \<open>__getattr__\<close>, which
  answers \<open>[{'params': []}]\<close> when there is no base optimizer and otherwise gives the
  groups of the base optimizer, which hold the parameters of \<open>master_parameters\<close>
  themselves.  \<open>put_params0\<close> is the write through those shared parameters.
\<close>

definition param_groups0 :: "('a, 'o) optimizer \<Rightarrow> py_error + 'a param list" where
  "param_groups0 s =
     (case base_optimizer s of
        None \<Rightarrow> Inr []
      | Some b \<Rightarrow>
          (case groups_of (master_parameters s) of
             [] \<Rightarrow> Inl IndexError
           | g # gs \<Rightarrow> Inr g))"

definition put_params0 :: "('a, 'o) optimizer \<Rightarrow> 'a param list \<Rightarrow> ('a, 'o) optimizer" where
  "put_params0 s ps =
     (case base_optimizer s of
        None \<Rightarrow> s
      | Some b \<Rightarrow> s\<lparr>master_parameters := set_group0 ps (master_parameters s)\<rparr>)"

text \<open>\<open>if p.grad is not None: p.grad.div_(self.update_interval)\<close>\<close>

definition div_grad :: "('a \<Rightarrow> int \<Rightarrow> 'a) \<Rightarrow> int \<Rightarrow> 'a param \<Rightarrow> 'a param" where
  "div_grad dv u p =
     (case grad p of
        None \<Rightarrow> p
      | Some g \<Rightarrow> p\<lparr>grad := Some (g\<lparr>payload := dv (payload g) u\<rparr>)\<rparr>)"

definition step_average ::
  "('a, 'o, 'l) torch \<Rightarrow> ('a, 'o) optimizer \<Rightarrow> py_error + ('a, 'o) optimizer" where
  "step_average T s =
     bind_e (param_groups0 s) (\<lambda>ps.
       Inr (put_params0 s (map (div_grad (div_t T) (update_interval s)) ps)))"

definition step_clip ::
  "('a, 'o, 'l) torch \<Rightarrow> ('a, 'o) optimizer \<Rightarrow> py_error + ('a, 'o) optimizer" where
  "step_clip T s =
     (case clip_grad s of
        None \<Rightarrow> Inr s
      | Some c \<Rightarrow>
          bind_e (param_groups0 s) (\<lambda>ps. Inr (put_params0 s (clip_grad_norm T ps c))))"

text \<open>\<open>loss = self.base_optimizer.step() if self.base_optimizer is not None else None\<close>\<close>

definition step_update ::
  "('a, 'o, 'l) torch \<Rightarrow> ('a, 'o) optimizer \<Rightarrow> py_error + (('a, 'o) optimizer \<times> 'l option)" where
  "step_update T s =
     (case base_optimizer s of
        None \<Rightarrow> Inr (s, None)
      | Some b \<Rightarrow>
          bind_e (optim_step T b (master_parameters s) (modules s))
            (\<lambda>(b', master', mods', loss).
               Inr (s\<lparr>base_optimizer := Some b', master_parameters := master',
                      modules := mods'\<rparr>, loss)))"

definition step_fp16_params ::
  "('a, 'o, 'l) torch \<Rightarrow> ('a, 'o) optimizer \<Rightarrow> py_error + ('a, 'o) optimizer" where
  "step_fp16_params T s =
     (case model_parameters s of
        None \<Rightarrow> Inr s
      | Some model \<Rightarrow>
          bind_e (master_params_to_model_params T model (master_parameters s)
                    (base_optimizer s) (modules s))
            (\<lambda>mods'. Inr (s\<lparr>modules := mods'\<rparr>)))"

text \<open>
  The rotation: the buffered state dicts become those of slot 0, are overwritten from
  the live modules (which, without \<open>save_dir\<close>, overwrites slot 0 itself) and are
  appended with the latest version.
\<close>

definition step_stash :: "('a, 'o) optimizer \<Rightarrow> py_error + ('a, 'o) optimizer" where
  "step_stash s =
     (if 1 < num_versions s then
        bind_e (get_from_queue s 0) (\<lambda>(state_dicts, version).
        bind_e (get_params_buffered (s\<lparr>buffered_state_dicts := state_dicts\<rparr>)) (\<lambda>(s', data).
          append_to_queue (write_slot s' 0 (fst data) version) data))
      else Inr s)"

definition step ::
  "('a, 'o, 'l) torch \<Rightarrow> ('a, 'o) optimizer \<Rightarrow> py_error + (('a, 'o) optimizer \<times> 'l option)" where
  "step T s =
     (if update_interval s = 0 then Inl ZeroDivisionError
      else if batch_counter s mod update_interval s \<noteq> update_interval s - 1 then
        Inr (s\<lparr>batch_counter := batch_counter s + 1\<rparr>, None)
      else
        let log_timing = (0 < verbose_freq s \<and> batch_counter s mod verbose_freq s = 0) in
        bind_e (step_fp16_grads T s) (\<lambda>s1.
        bind_e (step_average T s1) (\<lambda>s2.
        bind_e (step_clip T s2) (\<lambda>s3.
        bind_e (step_update T s3) (\<lambda>(s4, loss).
        bind_e (step_fp16_params T s4) (\<lambda>s5.
        bind_e (step_stash (s5\<lparr>latest_version := latest_version s5 + 1\<rparr>)) (\<lambda>s6.
          Inr (s6\<lparr>stdout := (if log_timing then stdout s6 @ [Step_took] else stdout s6),
                  batch_counter := batch_counter s6 + 1\<rparr>, loss))))))))"

subsection \<open>Sequences of calls\<close>

text \<open>
  A caller drives the optimizer through a sequence of calls; \<open>run\<close> performs them in
  order, stops at the first exception, and collects what each call returned.
\<close>

datatype call = Step | Zero_grad | Load_old_params | Load_new_params

fun call_op ::
  "('a, 'o, 'l) torch \<Rightarrow> call \<Rightarrow> ('a, 'o) optimizer \<Rightarrow>
   py_error + (('a, 'o) optimizer \<times> 'l option)" where
  "call_op T Step s = step T s"
| "call_op T Zero_grad s = bind_e (zero_grad s) (\<lambda>s'. Inr (s', None))"
| "call_op T Load_old_params s = bind_e (load_old_params s) (\<lambda>s'. Inr (s', None))"
| "call_op T Load_new_params s = bind_e (load_new_params s) (\<lambda>s'. Inr (s', None))"

fun run ::
  "('a, 'o, 'l) torch \<Rightarrow> call list \<Rightarrow> ('a, 'o) optimizer \<Rightarrow>
   py_error + (('a, 'o) optimizer \<times> 'l option list)" where
  "run T [] s = Inr (s, [])"
| "run T (c # cs) s =
     bind_e (call_op T c s) (\<lambda>(s', r).
     bind_e (run T cs s') (\<lambda>(s'', rs). Inr (s'', r # rs)))"

section \<open>Notions used to state the properties\<close>

text \<open>
  The blocks of \<open>step\<close> that run before the update algorithm is invoked: the state they
  leave is the one \<open>base_optimizer.step()\<close> is called in.
\<close>

definition step_grads ::
  "('a, 'o, 'l) torch \<Rightarrow> ('a, 'o) optimizer \<Rightarrow> py_error + ('a, 'o) optimizer" where
  "step_grads T s =
     bind_e (step_fp16_grads T s) (\<lambda>s1. bind_e (step_average T s1) (step_clip T))"

text \<open>The fields that no operation writes after construction.\<close>

definition config :: "('a, 'o) optimizer \<Rightarrow>
    'a param list option \<times> real \<times> real option \<times> string option \<times> bool \<times> int \<times> int \<times> int" where
  "config s = (model_parameters s, loss_scale s, clip_grad s, save_dir s, stash_to_cpu s,
               num_versions s, verbose_freq s, update_interval s)"

text \<open>
  The version tags of the ring as the code reads them: \<open>get_from_queue(i)[1]\<close> for every
  slot \<open>i\<close>, oldest first.
\<close>

definition ring_versions :: "('a, 'o) optimizer \<Rightarrow> (py_error + int) list" where
  "ring_versions s =
     map (\<lambda>i. map_sum id snd (get_from_queue s (int i))) [0..<length (queue s)]"

text \<open>
  The tag that slot \<open>i\<close> (counted from the oldest) carries, the well-formedness of a
  slot, and the invariant of the ring: it is full, and every slot carries its tag, in
  the tuple it holds or in the file it names.
\<close>

definition slot_tag :: "('a, 'o) optimizer \<Rightarrow> nat \<Rightarrow> int" where
  "slot_tag s i =
     (if 1 < num_versions s then max 0 (latest_version s - num_versions s + 1 + int i) else 0)"

definition slot_ok :: "('a, 'o) optimizer \<Rightarrow> nat \<Rightarrow> bool" where
  "slot_ok s i =
     (case save_dir s of
        None \<Rightarrow> (\<exists>sds. queue s ! i = Stashed sds (slot_tag s i))
      | Some d \<Rightarrow>
          queue s ! i = File (d, slot_tag s i mod num_versions s) \<and>
          (\<exists>sds. files s (d, slot_tag s i mod num_versions s) = Some (sds, slot_tag s i)))"

definition ring_inv :: "('a, 'o) optimizer \<Rightarrow> bool" where
  "ring_inv s =
     (1 \<le> num_versions s \<and> 0 \<le> latest_version s \<and>
      length (queue s) = nat (num_versions s) \<and>
      (\<forall>i < length (queue s). slot_ok s i))"

text \<open>
  State dicts with the names of the live modules, module by module, and the invariant
  that every snapshot of the ring has them.
\<close>

definition same_keys :: "'a state_dict list \<Rightarrow> 'a state_dict list \<Rightarrow> bool" where
  "same_keys sds ms = (map (map fst) sds = map (map fst) ms)"

definition shape_inv :: "('a, 'o) optimizer \<Rightarrow> bool" where
  "shape_inv s =
     (\<forall>i < length (queue s).
        \<exists>sds v. get_from_queue s (int i) = Inr (sds, v) \<and> same_keys sds (modules s))"

section \<open>Concrete collaborators and states\<close>

text \<open>
  Collaborators over integer payloads: the optimizer's internal state counts the
  updates it has performed, \<open>div_\<close> is integer division, and the other operations leave
  their arguments as they are.
\<close>

definition counting_torch :: "(int, nat, int) torch" where
  "counting_torch =
     \<lparr>optim_new = (\<lambda>name master. Inr 0),
      optim_step = (\<lambda>b master mods. Inr (Suc b, master, mods, None)),
      div_t = (\<lambda>x u. x div u),
      div_scale = (\<lambda>x r. x),
      clip_grad_norm = (\<lambda>ps c. ps),
      model_grads_to_master_grads = (\<lambda>model master. Inr master),
      master_params_to_model_params = (\<lambda>model master b mods. Inr mods)\<rparr>"

definition gpu :: "int \<Rightarrow> int tensor" where
  "gpu x = \<lparr>payload = x, device = GPU\<rparr>"

text \<open>
  One module with a weight, a running mean and a mask; a ring of two snapshots taken
  when the three held 1, 2 and 3; one parameter with gradient 6.
\<close>

definition snapshot0 :: "int state_dict list" where
  "snapshot0 = [[(''w'', gpu 1), (''bn.running_mean'', gpu 2), (''attn.mask'', gpu 3)]]"

definition stage :: "(int, nat) optimizer" where
  "stage =
     \<lparr>modules = [[(''w'', gpu 5), (''bn.running_mean'', gpu 7), (''attn.mask'', gpu 9)]],
      master_parameters = Tensors [\<lparr>grad = Some (gpu 6)\<rparr>],
      model_parameters = None, loss_scale = 1, clip_grad = None, save_dir = None,
      stash_to_cpu = False, num_versions = 2, base_optimizer = Some 0,
      latest_version = 0, current_version = 0,
      queue = [Stashed snapshot0 0, Stashed snapshot0 0],
      buffered_state_dicts = snapshot0, verbose_freq = 0, batch_counter = 0,
      update_interval = 2, files = Map.empty, stdout = []\<rparr>"

text \<open>The same stage with no parameters to optimize, one version and no macrobatching.\<close>

definition bare_stage :: "(int, nat) optimizer" where
  "bare_stage = stage\<lparr>master_parameters := Tensors [], base_optimizer := None,
                       num_versions := 1, update_interval := 1\<rparr>"

text \<open>
  The stage with \<open>update_interval = 4\<close> at the last call of its window, and the state
  that call leaves.
\<close>

definition stage_ready :: "(int, nat) optimizer" where
  "stage_ready = stage\<lparr>update_interval := 4, batch_counter := 3\<rparr>"

definition stage_updated :: "(int, nat) optimizer" where
  "stage_updated =
     stage\<lparr>update_interval := 4, batch_counter := 4, latest_version := 1,
           master_parameters := Tensors [\<lparr>grad = Some (gpu 1)\<rparr>],
           base_optimizer := Some 1,
           queue := [Stashed snapshot0 0,
             Stashed [[(''w'', gpu 5), (''bn.running_mean'', gpu 2), (''attn.mask'', gpu 9)]] 1],
           buffered_state_dicts :=
             [[(''w'', gpu 5), (''bn.running_mean'', gpu 2), (''attn.mask'', gpu 9)]]\<rparr>"


text \<open>
  What restoring the oldest snapshot leaves: the weight is the snapshot's, the running
  mean and the mask are the live ones, in the module and in the snapshot.
\<close>

definition restored0 :: "int state_dict list" where
  "restored0 = [[(''w'', gpu 1), (''bn.running_mean'', gpu 7), (''attn.mask'', gpu 9)]]"

definition stage_restored :: "(int, nat) optimizer" where
  "stage_restored =
     stage\<lparr>modules := restored0, queue := [Stashed restored0 0, Stashed snapshot0 0]\<rparr>"

text \<open>The stage with its ring on disk: both slots name the file that holds \<open>snapshot0\<close>.\<close>

definition disk_stage :: "(int, nat) optimizer" where
  "disk_stage =
     stage\<lparr>save_dir := Some ''ckpt'',
           queue := [File (''ckpt'', 0), File (''ckpt'', 0)],
           files := [(''ckpt'', 0) \<mapsto> (snapshot0, 0)]\<rparr>"

text \<open>
  A stage as the constructor leaves it (macrobatching, two versions, nothing saved to
  disk): both slots hold a copy of the live state tagged 0; and the same stage after
  two \<open>step\<close> calls, the second of which updated.
\<close>

definition live0 :: "int state_dict list" where
  "live0 = [[(''w'', gpu 5), (''bn.running_mean'', gpu 7), (''attn.mask'', gpu 9)]]"

definition fresh_stage :: "(int, nat) optimizer" where
  "fresh_stage =
     stage\<lparr>queue := [Stashed live0 0, Stashed live0 0], buffered_state_dicts := live0\<rparr>"

definition fresh_stage_stepped :: "(int, nat) optimizer" where
  "fresh_stage_stepped =
     fresh_stage\<lparr>master_parameters := Tensors [\<lparr>grad = Some (gpu 3)\<rparr>],
                 base_optimizer := Some 1, latest_version := 1,
                 queue := [Stashed live0 0, Stashed live0 1], batch_counter := 2\<rparr>"

text \<open>
  A stage that stashes on the CPU: the snapshots of the ring are on the CPU, and so
  is the live running mean.
\<close>

definition on_cpu :: "int \<Rightarrow> int tensor" where
  "on_cpu x = \<lparr>payload = x, device = CPU\<rparr>"

definition cpu_snapshot0 :: "int state_dict list" where
  "cpu_snapshot0 =
     [[(''w'', on_cpu 1), (''bn.running_mean'', on_cpu 2), (''attn.mask'', on_cpu 3)]]"

definition stash_stage :: "(int, nat) optimizer" where
  "stash_stage =
     stage\<lparr>modules := [[(''w'', gpu 5), (''bn.running_mean'', on_cpu 7), (''attn.mask'', gpu 9)]],
           stash_to_cpu := True,
           queue := [Stashed cpu_snapshot0 0, Stashed cpu_snapshot0 0],
           buffered_state_dicts := cpu_snapshot0\<rparr>"

definition cpu_restored0 :: "int state_dict list" where
  "cpu_restored0 =
     [[(''w'', on_cpu 1), (''bn.running_mean'', gpu 7), (''attn.mask'', gpu 9)]]"

definition stash_stage_restored :: "(int, nat) optimizer" where
  "stash_stage_restored =
     stash_stage\<lparr>modules := [[(''w'', gpu 1), (''bn.running_mean'', on_cpu 7),
                                (''attn.mask'', gpu 9)]],
                 queue := [Stashed cpu_restored0 0, Stashed cpu_snapshot0 0]\<rparr>"

section \<open>Properties\<close>

subsection \<open>Exceptions and frames\<close>

lemma bind_e_Inr [simp]: "bind_e (Inr v) f = f v"
  by (simp add: bind_e_def)

lemma bind_e_Inl [simp]: "bind_e (Inl e) f = Inl e"
  by (simp add: bind_e_def)

lemma bind_e_eq_Inr: "bind_e m f = Inr y \<longleftrightarrow> (\<exists>v. m = Inr v \<and> f v = Inr y)"
  by (cases m) simp_all

lemma put_params0_keeps:
  "config (put_params0 s ps) = config s \<and> modules (put_params0 s ps) = modules s \<and>
   base_optimizer (put_params0 s ps) = base_optimizer s \<and>
   latest_version (put_params0 s ps) = latest_version s \<and>
   current_version (put_params0 s ps) = current_version s \<and>
   queue (put_params0 s ps) = queue s \<and>
   buffered_state_dicts (put_params0 s ps) = buffered_state_dicts s \<and>
   batch_counter (put_params0 s ps) = batch_counter s \<and>
   files (put_params0 s ps) = files s \<and> stdout (put_params0 s ps) = stdout s"
  by (simp add: put_params0_def config_def split: option.splits)

lemma step_fp16_grads_keeps:
  "step_fp16_grads T s = Inr s' \<Longrightarrow>
   config s' = config s \<and> modules s' = modules s \<and> base_optimizer s' = base_optimizer s \<and>
   latest_version s' = latest_version s \<and> current_version s' = current_version s \<and>
   queue s' = queue s \<and> buffered_state_dicts s' = buffered_state_dicts s \<and>
   batch_counter s' = batch_counter s \<and> files s' = files s \<and> stdout s' = stdout s"
  by (auto simp: step_fp16_grads_def config_def bind_e_eq_Inr
      split: option.splits if_splits master.splits list.splits)

lemma step_average_keeps:
  "step_average T s = Inr s' \<Longrightarrow>
   config s' = config s \<and> modules s' = modules s \<and> base_optimizer s' = base_optimizer s \<and>
   latest_version s' = latest_version s \<and> current_version s' = current_version s \<and>
   queue s' = queue s \<and> buffered_state_dicts s' = buffered_state_dicts s \<and>
   batch_counter s' = batch_counter s \<and> files s' = files s \<and> stdout s' = stdout s"
  using put_params0_keeps by (auto simp: step_average_def bind_e_eq_Inr)

lemma step_clip_keeps:
  "step_clip T s = Inr s' \<Longrightarrow>
   config s' = config s \<and> modules s' = modules s \<and> base_optimizer s' = base_optimizer s \<and>
   latest_version s' = latest_version s \<and> current_version s' = current_version s \<and>
   queue s' = queue s \<and> buffered_state_dicts s' = buffered_state_dicts s \<and>
   batch_counter s' = batch_counter s \<and> files s' = files s \<and> stdout s' = stdout s"
  using put_params0_keeps
  by (cases "clip_grad s") (auto simp: step_clip_def bind_e_eq_Inr)

lemma step_grads_keeps:
  assumes "step_grads T s = Inr s'"
  shows "config s' = config s \<and> modules s' = modules s \<and> base_optimizer s' = base_optimizer s \<and>
   latest_version s' = latest_version s \<and> current_version s' = current_version s \<and>
   queue s' = queue s \<and> buffered_state_dicts s' = buffered_state_dicts s \<and>
   batch_counter s' = batch_counter s \<and> files s' = files s \<and> stdout s' = stdout s"
proof -
  from assms obtain s1 s2 where a: "step_fp16_grads T s = Inr s1"
    and b: "step_average T s1 = Inr s2" and c: "step_clip T s2 = Inr s'"
    by (auto simp: step_grads_def bind_e_eq_Inr)
  from step_fp16_grads_keeps [OF a] step_average_keeps [OF b] step_clip_keeps [OF c]
  show ?thesis by simp
qed

lemma step_update_keeps:
  "step_update T s = Inr (s', r) \<Longrightarrow>
   config s' = config s \<and>
   latest_version s' = latest_version s \<and> current_version s' = current_version s \<and>
   queue s' = queue s \<and> buffered_state_dicts s' = buffered_state_dicts s \<and>
   batch_counter s' = batch_counter s \<and> files s' = files s \<and> stdout s' = stdout s"
  by (cases "base_optimizer s") (auto simp: step_update_def config_def bind_e_eq_Inr)

lemma step_fp16_params_keeps:
  "step_fp16_params T s = Inr s' \<Longrightarrow>
   config s' = config s \<and> master_parameters s' = master_parameters s \<and>
   base_optimizer s' = base_optimizer s \<and>
   latest_version s' = latest_version s \<and> current_version s' = current_version s \<and>
   queue s' = queue s \<and> buffered_state_dicts s' = buffered_state_dicts s \<and>
   batch_counter s' = batch_counter s \<and> files s' = files s \<and> stdout s' = stdout s"
  by (cases "model_parameters s") (auto simp: step_fp16_params_def config_def bind_e_eq_Inr)

lemma append_to_queue_keeps:
  "append_to_queue s d = Inr s' \<Longrightarrow>
   config s' = config s \<and> modules s' = modules s \<and>
   master_parameters s' = master_parameters s \<and> base_optimizer s' = base_optimizer s \<and>
   latest_version s' = latest_version s \<and> current_version s' = current_version s \<and>
   buffered_state_dicts s' = buffered_state_dicts s \<and>
   batch_counter s' = batch_counter s \<and> stdout s' = stdout s"
  by (cases "save_dir s"; cases d)
     (auto simp: append_to_queue_def config_def Let_def split: if_splits)

lemma write_slot_keeps:
  "config (write_slot s i sds v) = config s \<and> modules (write_slot s i sds v) = modules s \<and>
   master_parameters (write_slot s i sds v) = master_parameters s \<and>
   base_optimizer (write_slot s i sds v) = base_optimizer s \<and>
   latest_version (write_slot s i sds v) = latest_version s \<and>
   current_version (write_slot s i sds v) = current_version s \<and>
   buffered_state_dicts (write_slot s i sds v) = buffered_state_dicts s \<and>
   batch_counter (write_slot s i sds v) = batch_counter s \<and>
   files (write_slot s i sds v) = files s \<and> stdout (write_slot s i sds v) = stdout s"
  by (cases "save_dir s") (auto simp: write_slot_def config_def)

lemma get_params_buffered_keeps:
  "get_params_buffered s = Inr (s', d) \<Longrightarrow>
   config s' = config s \<and> modules s' = modules s \<and>
   master_parameters s' = master_parameters s \<and> base_optimizer s' = base_optimizer s \<and>
   latest_version s' = latest_version s \<and> current_version s' = current_version s \<and>
   queue s' = queue s \<and> batch_counter s' = batch_counter s \<and> files s' = files s \<and>
   stdout s' = stdout s"
  by (auto simp: get_params_buffered_def config_def bind_e_eq_Inr)

lemma step_stash_keeps:
  assumes "step_stash s = Inr s'"
  shows "config s' = config s \<and> modules s' = modules s \<and>
   master_parameters s' = master_parameters s \<and> base_optimizer s' = base_optimizer s \<and>
   latest_version s' = latest_version s \<and> current_version s' = current_version s \<and>
   batch_counter s' = batch_counter s \<and> stdout s' = stdout s"
proof (cases "1 < num_versions s")
  case False
  with assms show ?thesis by (simp add: step_stash_def)
next
  case True
  with assms obtain sds v s1 d where
    g: "get_params_buffered (s\<lparr>buffered_state_dicts := sds\<rparr>) = Inr (s1, d)" and
    a: "append_to_queue (write_slot s1 0 (fst d) v) d = Inr s'"
    by (auto simp: step_stash_def bind_e_eq_Inr)
  from get_params_buffered_keeps [OF g] append_to_queue_keeps [OF a]
    write_slot_keeps [of s1 0 "fst d" v]
  show ?thesis by (simp add: config_def)
qed

text \<open>The READY branch of step, taken apart.\<close>

lemma step_ready:
  assumes "update_interval s \<noteq> 0"
    and "batch_counter s mod update_interval s = update_interval s - 1"
    and "step T s = Inr (s', r)"
  shows "\<exists>s3 s4 s5 s6.
           step_grads T s = Inr s3 \<and> step_update T s3 = Inr (s4, r) \<and>
           step_fp16_params T s4 = Inr s5 \<and>
           step_stash (s5\<lparr>latest_version := latest_version s5 + 1\<rparr>) = Inr s6 \<and>
           s' = s6\<lparr>stdout := (if 0 < verbose_freq s \<and> batch_counter s mod verbose_freq s = 0
                               then stdout s6 @ [Step_took] else stdout s6),
                    batch_counter := batch_counter s6 + 1\<rparr>"
proof -
  from assms obtain s1 s2 s3 s4 s5 s6 where
    "step_fp16_grads T s = Inr s1" "step_average T s1 = Inr s2" "step_clip T s2 = Inr s3"
    "step_update T s3 = Inr (s4, r)" "step_fp16_params T s4 = Inr s5"
    "step_stash (s5\<lparr>latest_version := latest_version s5 + 1\<rparr>) = Inr s6"
    "s' = s6\<lparr>stdout := (if 0 < verbose_freq s \<and> batch_counter s mod verbose_freq s = 0
                               then stdout s6 @ [Step_took] else stdout s6),
                    batch_counter := batch_counter s6 + 1\<rparr>"
    by (auto simp: step_def Let_def bind_e_eq_Inr)
  then show ?thesis
    by (simp add: step_grads_def)
qed

subsection \<open>The cadence of step\<close>

lemma step_update_base:
  "step_update T s = Inr (s', r) \<Longrightarrow>
   (case base_optimizer s of
      None \<Rightarrow> s' = s \<and> r = None
    | Some b \<Rightarrow>
        (\<exists>b' m' mods'.
           optim_step T b (master_parameters s) (modules s) = Inr (b', m', mods', r) \<and>
           s' = s\<lparr>base_optimizer := Some b', master_parameters := m', modules := mods'\<rparr>))"
  by (cases "base_optimizer s") (auto simp: step_update_def bind_e_eq_Inr)

text \<open>
  C1 (as amended).  For every optimizer with \<open>update_interval \<ge> 1\<close>, in any state (so
  after any sequence of calls): a \<open>step\<close> call made when
  \<open>batch_counter mod update_interval \<noteq> update_interval - 1\<close> returns normally with no
  result and changes nothing but \<open>batch_counter\<close>, which it increments, so it performs
  no update; a call made when \<open>batch_counter mod update_interval = update_interval - 1\<close>
  that returns normally has incremented \<open>latest_version\<close> and \<open>batch_counter\<close> by
  exactly 1, and, when there is a base optimizer, has invoked its update exactly once,
  on the gradients that \<open>step_grads\<close> leaves, and returns its result; when there is
  no base optimizer (an empty parameter set) it has performed no update and returns
  no result.
\<close>

theorem step_cadence:
  assumes "1 \<le> update_interval s"
  shows "(batch_counter s mod update_interval s \<noteq> update_interval s - 1 \<longrightarrow>
            step T s = Inr (s\<lparr>batch_counter := batch_counter s + 1\<rparr>, None)) \<and>
         (batch_counter s mod update_interval s = update_interval s - 1 \<longrightarrow>
          step T s = Inr (s', r) \<longrightarrow>
            latest_version s' = latest_version s + 1 \<and>
            batch_counter s' = batch_counter s + 1 \<and>
            (case base_optimizer s of
               None \<Rightarrow> base_optimizer s' = None \<and> r = None
             | Some b \<Rightarrow>
                 (\<exists>s3 b' m' mods'.
                    step_grads T s = Inr s3 \<and>
                    optim_step T b (master_parameters s3) (modules s3) = Inr (b', m', mods', r) \<and>
                    base_optimizer s' = Some b')))"
proof (intro conjI impI)
  assume "batch_counter s mod update_interval s \<noteq> update_interval s - 1"
  with assms show "step T s = Inr (s\<lparr>batch_counter := batch_counter s + 1\<rparr>, None)"
    by (simp add: step_def)
next
  assume ready: "batch_counter s mod update_interval s = update_interval s - 1"
    and ret: "step T s = Inr (s', r)"
  from assms have "update_interval s \<noteq> 0" by simp
  from step_ready [OF this ready ret] obtain s3 s4 s5 s6 where
    g: "step_grads T s = Inr s3" and u: "step_update T s3 = Inr (s4, r)" and
    p: "step_fp16_params T s4 = Inr s5" and
    st: "step_stash (s5\<lparr>latest_version := latest_version s5 + 1\<rparr>) = Inr s6" and
    s': "s' = s6\<lparr>stdout := (if 0 < verbose_freq s \<and> batch_counter s mod verbose_freq s = 0
                               then stdout s6 @ [Step_took] else stdout s6),
                    batch_counter := batch_counter s6 + 1\<rparr>"
    by blast
  note k = step_grads_keeps [OF g] step_update_keeps [OF u] step_fp16_params_keeps [OF p]
    step_stash_keeps [OF st]
  show "latest_version s' = latest_version s + 1"
    using k by (simp add: s')
  show "batch_counter s' = batch_counter s + 1"
    using k by (simp add: s')
  have b6: "base_optimizer s' = base_optimizer s4"
    using k by (simp add: s')
  show "case base_optimizer s of
          None \<Rightarrow> base_optimizer s' = None \<and> r = None
        | Some b \<Rightarrow>
            (\<exists>s3 b' m' mods'.
               step_grads T s = Inr s3 \<and>
               optim_step T b (master_parameters s3) (modules s3) = Inr (b', m', mods', r) \<and>
               base_optimizer s' = Some b')"
  proof (cases "base_optimizer s")
    case None
    then have "base_optimizer s3 = None" using k by simp
    with step_update_base [OF u] None b6 show ?thesis by simp
  next
    case (Some b)
    then have "base_optimizer s3 = Some b" using k by simp
    with step_update_base [OF u] obtain b' m' mods' where
      "optim_step T b (master_parameters s3) (modules s3) = Inr (b', m', mods', r)"
      "s4 = s3\<lparr>base_optimizer := Some b', master_parameters := m', modules := mods'\<rparr>"
      by auto
    with g b6 Some show ?thesis by auto
  qed
qed

text \<open>
  With \<open>update_interval = 4\<close> the call at \<open>batch_counter = 3\<close> is the one that updates:
  the optimizer's count of updates goes from 0 to 1.
\<close>

theorem step_cadence_witness:
  "1 \<le> update_interval stage_ready \<and>
   batch_counter stage_ready mod update_interval stage_ready = update_interval stage_ready - 1 \<and>
   base_optimizer stage_ready = Some 0 \<and>
   step counting_torch stage_ready = Inr (stage_updated, None) \<and>
   latest_version stage_updated = latest_version stage_ready + 1 \<and>
   batch_counter stage_updated = batch_counter stage_ready + 1 \<and>
   base_optimizer stage_updated = Some 1"
proof -
  have ret: "step counting_torch stage_ready = Inr (stage_updated, None)"
    by (simp add: stage_ready_def stage_updated_def stage_def step_def step_fp16_grads_def
        step_average_def step_clip_def step_update_def step_fp16_params_def step_stash_def
        param_groups0_def put_params0_def counting_torch_def div_grad_def gpu_def
        get_from_queue_def py_index_def py_pos_def get_params_buffered_def snapshot0_def
        append_to_queue_def write_slot_def py_store_def deque_append_def copy_t_def
        capture_def clone_def)
  have u: "1 \<le> update_interval stage_ready"
    by (simp add: stage_ready_def)
  have r: "batch_counter stage_ready mod update_interval stage_ready =
      update_interval stage_ready - 1"
    by (simp add: stage_ready_def)
  have b: "base_optimizer stage_ready = Some 0" "base_optimizer stage_updated = Some 1"
    by (simp_all add: stage_ready_def stage_updated_def stage_def)
  from step_cadence [OF u, of counting_torch stage_updated None] ret r
  have "latest_version stage_updated = latest_version stage_ready + 1 \<and>
        batch_counter stage_updated = batch_counter stage_ready + 1"
    by simp
  with ret u r b show ?thesis by simp
qed

text \<open>
  The claim as stated fails where there is nothing to optimize: at
  \<open>batch_counter mod update_interval = update_interval - 1\<close> the call below returns
  normally, there is no base optimizer before or after it, and nothing but
  \<open>latest_version\<close> and \<open>batch_counter\<close> has changed, so no update was performed.
\<close>

theorem step_cadence_counterexample:
  "1 \<le> update_interval bare_stage \<and>
   batch_counter bare_stage mod update_interval bare_stage = update_interval bare_stage - 1 \<and>
   base_optimizer bare_stage = None \<and>
   step counting_torch bare_stage =
     Inr (bare_stage\<lparr>latest_version := 1, batch_counter := 1\<rparr>, None)"
  by (simp add: bare_stage_def stage_def step_def step_fp16_grads_def step_average_def
      step_clip_def step_update_def step_fp16_params_def step_stash_def param_groups0_def
      put_params0_def)

subsection \<open>Restoring a snapshot\<close>

lemma rebind_live_keys:
  "rebind_live stash cur keys sd = Inr sd' \<Longrightarrow> set keys \<subseteq> set (map fst sd) \<Longrightarrow>
   map fst sd' = map fst sd"
proof (induction keys arbitrary: sd)
  case Nil
  then show ?case by simp
next
  case (Cons key keys)
  show ?case
  proof (cases "py_in ''running_'' key \<or> py_in ''mask'' key")
    case False
    with Cons show ?thesis by simp
  next
    case True
    with Cons.prems obtain t where t: "map_of cur key = Some t"
      and r: "rebind_live stash cur keys (AList.update key (if stash then cuda t else t) sd) = Inr sd'"
      by (auto split: option.splits)
    from Cons.prems(2) have k: "map fst (AList.update key (if stash then cuda t else t) sd) = map fst sd"
      by (simp add: update_keys)
    from Cons.IH [OF r] Cons.prems(2) k show ?thesis by simp
  qed
qed

lemma rebind_live_map_of:
  "rebind_live stash cur keys sd = Inr sd' \<Longrightarrow>
   map_of sd' key =
     (if key \<in> set keys \<and> (py_in ''running_'' key \<or> py_in ''mask'' key)
      then map_option (\<lambda>t. if stash then cuda t else t) (map_of cur key)
      else map_of sd key)"
proof (induction keys arbitrary: sd)
  case Nil
  then show ?case by simp
next
  case (Cons k keys)
  show ?case
  proof (cases "py_in ''running_'' k \<or> py_in ''mask'' k")
    case False
    with Cons show ?thesis by auto
  next
    case True
    with Cons.prems obtain t where t: "map_of cur k = Some t"
      and r: "rebind_live stash cur keys (AList.update k (if stash then cuda t else t) sd) = Inr sd'"
      by (auto split: option.splits)
    from Cons.IH [OF r] t True show ?thesis
      by (auto simp: update_conv')
  qed
qed

lemma rebind_live_defined:
  "rebind_live stash cur keys sd = Inr sd' \<Longrightarrow> key \<in> set keys \<Longrightarrow>
   py_in ''running_'' key \<or> py_in ''mask'' key \<Longrightarrow> map_of cur key \<noteq> None"
proof (induction keys arbitrary: sd)
  case Nil
  then show ?case by simp
next
  case (Cons k keys)
  then show ?case
    by (cases "py_in ''running_'' k \<or> py_in ''mask'' k") (auto split: option.splits)
qed

lemma map_of_map_keyed:
  "map_of (map (\<lambda>(k, t). (k, f k t)) m) key = map_option (f key) (map_of m key)"
  by (induction m) auto

lemma load_state_dict_map_of:
  "load_state_dict m sd = Inr m' \<Longrightarrow>
   map_of m' key = map_option (\<lambda>t. copy_t t (the (map_of sd key))) (map_of m key)"
  by (auto simp: load_state_dict_def map_of_map_keyed split: if_splits)

lemma load_state_dict_keys:
  "load_state_dict m sd = Inr m' \<Longrightarrow> set (map fst sd) = set (map fst m) \<and> map fst m' = map fst m"
  by (auto simp: load_state_dict_def split: if_splits)

lemma copy_t_moved: "copy_t t (if stash then cuda t else t) = t"
  by (simp add: copy_t_def cuda_def)

text \<open>One pair of the loop of set_params.\<close>

lemma restore_pair_kept:
  assumes r: "rebind_live stash m (map fst sd) sd = Inr sd'"
    and l: "load_state_dict m sd' = Inr m'"
    and k: "py_in ''running_'' key \<or> py_in ''mask'' key"
  shows "map_of m' key = map_of m key"
proof (cases "map_of m key")
  case None
  with load_state_dict_map_of [OF l] show ?thesis by simp
next
  case (Some t)
  then have "key \<in> set (map fst m)"
    by (metis map_of_eq_None_iff option.distinct(1) set_map)
  moreover from rebind_live_keys [OF r] have "map fst sd' = map fst sd" by simp
  ultimately have "key \<in> set (map fst sd)"
    using load_state_dict_keys [OF l] by simp
  with rebind_live_map_of [OF r, of key] k Some
  have "map_of sd' key = Some (if stash then cuda t else t)" by simp
  with load_state_dict_map_of [OF l, of key] Some show ?thesis
    by (simp add: copy_t_moved)
qed

lemma set_params_loop_kept:
  "set_params_loop stash sds ms = Inr (sds', ms') \<Longrightarrow>
   py_in ''running_'' key \<or> py_in ''mask'' key \<Longrightarrow>
   map (\<lambda>m. map_of m key) ms' = map (\<lambda>m. map_of m key) ms"
proof (induction stash sds ms arbitrary: sds' ms' rule: set_params_loop.induct)
  case (1 stash ms)
  then show ?case by simp
next
  case (2 stash sd sds)
  then show ?case by simp
next
  case (3 stash sd sds m ms)
  from "3.prems"(1) obtain sd' m' sds1 ms1 where
    r: "rebind_live stash m (map fst sd) sd = Inr sd'" and
    l: "load_state_dict m sd' = Inr m'" and
    rest: "set_params_loop stash sds ms = Inr (sds1, ms1)" and
    eq: "sds' = sd' # sds1" "ms' = m' # ms1"
    by (auto simp: bind_e_eq_Inr)
  from "3.IH" [OF rest "3.prems"(2)] restore_pair_kept [OF r l "3.prems"(2)] eq
  show ?case by simp
qed

lemma set_params_kept:
  "set_params s sds v = Inr (s', sds') \<Longrightarrow> py_in ''running_'' key \<or> py_in ''mask'' key \<Longrightarrow>
   map (\<lambda>m. map_of m key) (modules s') = map (\<lambda>m. map_of m key) (modules s)"
  by (auto simp: set_params_def bind_e_eq_Inr dest: set_params_loop_kept)

lemma write_slot_modules: "modules (write_slot s i sds v) = modules s"
  by (simp add: write_slot_def split: option.splits)

lemma load_old_params_kept:
  "load_old_params s = Inr s' \<Longrightarrow> py_in ''running_'' key \<or> py_in ''mask'' key \<Longrightarrow>
   map (\<lambda>m. map_of m key) (modules s') = map (\<lambda>m. map_of m key) (modules s)"
  by (auto simp: load_old_params_def bind_e_eq_Inr write_slot_modules
      dest: set_params_kept split: if_splits)

lemma load_new_params_kept:
  "load_new_params s = Inr s' \<Longrightarrow> py_in ''running_'' key \<or> py_in ''mask'' key \<Longrightarrow>
   map (\<lambda>m. map_of m key) (modules s') = map (\<lambda>m. map_of m key) (modules s)"
  by (auto simp: load_new_params_def bind_e_eq_Inr write_slot_modules
      dest: set_params_kept split: if_splits)

text \<open>
  C4.  A restore by \<open>set_params\<close>, and so by \<open>load_old_params\<close> or \<open>load_new_params\<close>,
  that returns normally leaves every field of every live module whose name contains
  \<open>running_\<close> or \<open>mask\<close> as it was before the restore: what is loaded into such a
  field is the live module's own tensor (moved to the GPU when \<open>stash_to_cpu\<close> is
  set), whatever the snapshot holds under that name.
\<close>

theorem restore_keeps_running_and_mask:
  assumes "py_in ''running_'' key \<or> py_in ''mask'' key"
    and "set_params s sds v = Inr (s', sds') \<or> load_old_params s = Inr s' \<or>
         load_new_params s = Inr s'"
  shows "map (\<lambda>m. map_of m key) (modules s') = map (\<lambda>m. map_of m key) (modules s)"
  using assms set_params_kept load_old_params_kept load_new_params_kept by blast

theorem restore_keeps_running_and_mask_witness:
  "(py_in ''running_'' ''bn.running_mean'' \<or> py_in ''mask'' ''bn.running_mean'') \<and>
   load_old_params stage = Inr stage_restored \<and>
   map_of (snapshot0 ! 0) ''bn.running_mean'' = Some (gpu 2) \<and>
   map (\<lambda>m. map_of m ''bn.running_mean'') (modules stage) = [Some (gpu 7)] \<and>
   map (\<lambda>m. map_of m ''bn.running_mean'') (modules stage_restored) =
     map (\<lambda>m. map_of m ''bn.running_mean'') (modules stage)"
proof -
  have k: "py_in ''running_'' ''bn.running_mean'' \<or> py_in ''mask'' ''bn.running_mean''"
    by simp
  have l: "load_old_params stage = Inr stage_restored"
    by (simp add: stage_restored_def restored0_def stage_def snapshot0_def gpu_def
        load_old_params_def get_from_queue_def py_index_def py_pos_def set_params_def
        load_state_dict_def copy_t_def write_slot_def py_store_def)
  have m: "map_of (snapshot0 ! 0) ''bn.running_mean'' = Some (gpu 2)"
    "map (\<lambda>m. map_of m ''bn.running_mean'') (modules stage) = [Some (gpu 7)]"
    by (simp_all add: snapshot0_def stage_def)
  from restore_keeps_running_and_mask [OF k, of stage _ _ stage_restored] l
  have "map (\<lambda>m. map_of m ''bn.running_mean'') (modules stage_restored) =
     map (\<lambda>m. map_of m ''bn.running_mean'') (modules stage)"
    by simp
  with k l m show ?thesis by simp
qed

lemma set_params_loop_rebinds:
  "set_params_loop stash sds ms = Inr (sds', ms') \<Longrightarrow> i < length sds \<Longrightarrow> i < length ms \<Longrightarrow>
   key \<in> fst ` set (sds ! i) \<Longrightarrow> py_in ''running_'' key \<or> py_in ''mask'' key \<Longrightarrow>
   \<exists>t. map_of (ms ! i) key = Some t \<and>
       map_of (sds' ! i) key = Some (if stash then cuda t else t)"
proof (induction stash sds ms arbitrary: sds' ms' i rule: set_params_loop.induct)
  case (1 stash ms)
  then show ?case by simp
next
  case (2 stash sd sds)
  then show ?case by simp
next
  case (3 stash sd sds m ms)
  from "3.prems"(1) obtain sd' m' sds1 ms1 where
    r: "rebind_live stash m (map fst sd) sd = Inr sd'" and
    rest: "set_params_loop stash sds ms = Inr (sds1, ms1)" and
    eq: "sds' = sd' # sds1"
    by (auto simp: bind_e_eq_Inr)
  show ?case
  proof (cases i)
    case 0
    with "3.prems" have k: "key \<in> set (map fst sd)" by simp
    from rebind_live_defined [OF r k "3.prems"(5)] obtain t where t: "map_of m key = Some t"
      by auto
    with rebind_live_map_of [OF r, of key] k "3.prems"(5)
    have "map_of sd' key = Some (if stash then cuda t else t)" by simp
    with t 0 eq show ?thesis by simp
  next
    case (Suc j)
    with "3.prems" have "j < length sds" "j < length ms" "key \<in> fst ` set (sds ! j)"
      by simp_all
    from "3.IH" [OF rest this "3.prems"(5)] Suc eq show ?thesis by simp
  qed
qed

lemma py_index_store:
  "py_index xs i = Inr y \<Longrightarrow> py_index (py_store xs i x) i = Inr x"
  by (auto simp: py_index_def py_store_def py_pos_def split: option.splits if_splits)

lemma set_params_keeps:
  "set_params s sds v = Inr (s', sds') \<Longrightarrow>
   config s' = config s \<and> master_parameters s' = master_parameters s \<and>
   base_optimizer s' = base_optimizer s \<and> latest_version s' = latest_version s \<and>
   current_version s' = v \<and> queue s' = queue s \<and>
   buffered_state_dicts s' = buffered_state_dicts s \<and> batch_counter s' = batch_counter s \<and>
   files s' = files s \<and> stdout s' = stdout s"
  by (auto simp: set_params_def config_def bind_e_eq_Inr)

lemma get_from_queue_write_slot:
  assumes "save_dir s = None" and "get_from_queue s idx = Inr (sds, v)"
    and "save_dir s' = save_dir s" and "queue s' = queue s"
  shows "get_from_queue (write_slot s' idx sds' v') idx = Inr (sds', v')"
proof -
  from assms(1,2) obtain e where "py_index (queue s) idx = Inr e"
    by (auto simp: get_from_queue_def bind_e_eq_Inr)
  from py_index_store [OF this] assms show ?thesis
    by (simp add: get_from_queue_def write_slot_def)
qed

lemma get_from_queue_cong:
  "queue s' = queue s \<Longrightarrow> save_dir s' = save_dir s \<Longrightarrow> files s' = files s \<Longrightarrow>
   get_from_queue s' i = get_from_queue s i"
  by (simp add: get_from_queue_def cong: option.case_cong entry.case_cong)

text \<open>
  C10 (as amended).  Every \<open>set_params\<close> call that returns normally has written into
  the state dicts it was given: in each state dict that is paired with a module,
  every key whose name contains \<open>running_\<close> or \<open>mask\<close> is rebound to the live module's
  current tensor of that name, moved to the GPU when \<open>stash_to_cpu\<close> is set.  When
  \<open>save_dir\<close> is not set and \<open>num_versions > 1\<close>, the state dicts that
  \<open>load_old_params\<close> and \<open>load_new_params\<close> hand to \<open>set_params\<close> are the ring slot's
  own, so after the restore the slot holds the rebound state dicts, not the values
  captured for those keys.  When \<open>save_dir\<close> is set, the state dicts are a copy loaded
  from the slot's file: the restore leaves the ring, the files and what
  \<open>get_from_queue\<close> returns for every index as they were, so the stored snapshot
  keeps the values it captured.
\<close>

theorem restore_rebinds_snapshot:
  assumes "set_params s sds v = Inr (s', sds')"
  shows "(\<forall>i key. i < length sds \<longrightarrow> i < length (modules s) \<longrightarrow> key \<in> fst ` set (sds ! i) \<longrightarrow>
            py_in ''running_'' key \<or> py_in ''mask'' key \<longrightarrow>
            (\<exists>t. map_of (modules s ! i) key = Some t \<and>
                 map_of (sds' ! i) key = Some (if stash_to_cpu s then cuda t else t))) \<and>
         (save_dir s = None \<longrightarrow> 1 < num_versions s \<longrightarrow>
            (get_from_queue s 0 = Inr (sds, v) \<longrightarrow>
               load_old_params s = Inr (write_slot s' 0 sds' v) \<and>
               get_from_queue (write_slot s' 0 sds' v) 0 = Inr (sds', v)) \<and>
            (get_from_queue s (- 1) = Inr (sds, v) \<longrightarrow>
               load_new_params s = Inr (write_slot s' (- 1) sds' v) \<and>
               get_from_queue (write_slot s' (- 1) sds' v) (- 1) = Inr (sds', v))) \<and>
         (save_dir s \<noteq> None \<longrightarrow>
            queue s' = queue s \<and> files s' = files s \<and>
            (\<forall>idx. get_from_queue s' idx = get_from_queue s idx) \<and>
            (1 < num_versions s \<longrightarrow>
               (get_from_queue s 0 = Inr (sds, v) \<longrightarrow> load_old_params s = Inr s') \<and>
               (get_from_queue s (- 1) = Inr (sds, v) \<longrightarrow> load_new_params s = Inr s')))"
  (is "?rebinds \<and> ?memory \<and> ?disk")
proof -
  note k = set_params_keeps [OF assms]
  from k have same: "save_dir s' = save_dir s" "queue s' = queue s" "files s' = files s"
    by (simp_all add: config_def)
  have 1: ?rebinds
  proof (intro allI impI)
    fix i key
    assume "i < length sds" "i < length (modules s)" "key \<in> fst ` set (sds ! i)"
      "py_in ''running_'' key \<or> py_in ''mask'' key"
    moreover from assms obtain ms' where
      "set_params_loop (stash_to_cpu s) sds (modules s) = Inr (sds', ms')"
      by (auto simp: set_params_def bind_e_eq_Inr)
    ultimately show "\<exists>t. map_of (modules s ! i) key = Some t \<and>
        map_of (sds' ! i) key = Some (if stash_to_cpu s then cuda t else t)"
      by (rule set_params_loop_rebinds [rotated 1])
  qed
  have 2: ?memory
  proof (intro conjI impI)
    assume "save_dir s = None" "1 < num_versions s" "get_from_queue s 0 = Inr (sds, v)"
    with assms show "load_old_params s = Inr (write_slot s' 0 sds' v)"
      by (simp add: load_old_params_def)
  next
    assume a: "save_dir s = None" "get_from_queue s 0 = Inr (sds, v)"
    from a same(1,2) show "get_from_queue (write_slot s' 0 sds' v) 0 = Inr (sds', v)"
      by (rule get_from_queue_write_slot)
  next
    assume "save_dir s = None" "1 < num_versions s" "get_from_queue s (- 1) = Inr (sds, v)"
    with assms show "load_new_params s = Inr (write_slot s' (- 1) sds' v)"
      by (simp add: load_new_params_def)
  next
    assume a: "save_dir s = None" "get_from_queue s (- 1) = Inr (sds, v)"
    from a same(1,2) show "get_from_queue (write_slot s' (- 1) sds' v) (- 1) = Inr (sds', v)"
      by (rule get_from_queue_write_slot)
  qed
  have 3: ?disk
  proof (intro conjI impI allI)
    show "queue s' = queue s" by (rule same)
    show "files s' = files s" by (rule same)
  next
    fix idx
    from same(2,1,3) show "get_from_queue s' idx = get_from_queue s idx"
      by (rule get_from_queue_cong)
  next
    assume d: "save_dir s \<noteq> None" and "1 < num_versions s" "get_from_queue s 0 = Inr (sds, v)"
    from d same have "write_slot s' 0 sds' v = s'"
      by (auto simp: write_slot_def)
    with assms \<open>1 < num_versions s\<close> \<open>get_from_queue s 0 = Inr (sds, v)\<close>
    show "load_old_params s = Inr s'"
      by (simp add: load_old_params_def)
  next
    assume d: "save_dir s \<noteq> None" and "1 < num_versions s"
      "get_from_queue s (- 1) = Inr (sds, v)"
    from d same have "write_slot s' (- 1) sds' v = s'"
      by (auto simp: write_slot_def)
    with assms \<open>1 < num_versions s\<close> \<open>get_from_queue s (- 1) = Inr (sds, v)\<close>
    show "load_new_params s = Inr s'"
      by (simp add: load_new_params_def)
  qed
  from 1 2 3 show ?thesis by (intro conjI)
qed

theorem restore_rebinds_snapshot_witness:
  "set_params stage snapshot0 0 = Inr (stage\<lparr>modules := restored0\<rparr>, restored0) \<and>
   save_dir stage = None \<and> 1 < num_versions stage \<and>
   get_from_queue stage 0 = Inr (snapshot0, 0) \<and>
   map_of (snapshot0 ! 0) ''bn.running_mean'' = Some (gpu 2) \<and>
   map_of (modules stage ! 0) ''bn.running_mean'' = Some (gpu 7) \<and>
   load_old_params stage = Inr stage_restored \<and>
   get_from_queue stage_restored 0 = Inr (restored0, 0) \<and>
   map_of (restored0 ! 0) ''bn.running_mean'' = Some (gpu 7) \<and>
   stash_to_cpu stash_stage \<and> save_dir stash_stage = None \<and>
   get_from_queue stash_stage 0 = Inr (cpu_snapshot0, 0) \<and>
   set_params stash_stage cpu_snapshot0 0 =
     Inr (stash_stage\<lparr>modules := modules stash_stage_restored\<rparr>, cpu_restored0) \<and>
   map_of (cpu_snapshot0 ! 0) ''bn.running_mean'' = Some (on_cpu 2) \<and>
   map_of (modules stash_stage ! 0) ''bn.running_mean'' = Some (on_cpu 7) \<and>
   map_of (cpu_restored0 ! 0) ''bn.running_mean'' = Some (cuda (on_cpu 7)) \<and>
   device (cuda (on_cpu 7)) = GPU \<and>
   load_old_params stash_stage = Inr stash_stage_restored \<and>
   get_from_queue stash_stage_restored 0 = Inr (cpu_restored0, 0) \<and>
   save_dir disk_stage = Some ''ckpt'' \<and> 1 < num_versions disk_stage \<and>
   get_from_queue disk_stage 0 = Inr (snapshot0, 0) \<and>
   set_params disk_stage snapshot0 0 = Inr (disk_stage\<lparr>modules := restored0\<rparr>, restored0) \<and>
   load_old_params disk_stage = Inr (disk_stage\<lparr>modules := restored0\<rparr>) \<and>
   queue (disk_stage\<lparr>modules := restored0\<rparr>) = queue disk_stage \<and>
   files (disk_stage\<lparr>modules := restored0\<rparr>) = files disk_stage \<and>
   get_from_queue (disk_stage\<lparr>modules := restored0\<rparr>) 0 = Inr (snapshot0, 0)"
proof -
  have sp: "set_params stage snapshot0 0 = Inr (stage\<lparr>modules := restored0\<rparr>, restored0)"
    by (simp add: restored0_def stage_def snapshot0_def gpu_def set_params_def
        load_state_dict_def copy_t_def)
  have g: "save_dir stage = None" "1 < num_versions stage"
    "get_from_queue stage 0 = Inr (snapshot0, 0)"
    by (simp_all add: stage_def get_from_queue_def py_index_def py_pos_def)
  have w: "write_slot (stage\<lparr>modules := restored0\<rparr>) 0 restored0 0 = stage_restored"
    by (simp add: stage_restored_def stage_def write_slot_def py_store_def py_pos_def)
  have m: "map_of (snapshot0 ! 0) ''bn.running_mean'' = Some (gpu 2)"
    "map_of (modules stage ! 0) ''bn.running_mean'' = Some (gpu 7)"
    "map_of (restored0 ! 0) ''bn.running_mean'' = Some (gpu 7)"
    by (simp_all add: snapshot0_def stage_def restored0_def)
  note mem = restore_rebinds_snapshot [OF sp, THEN conjunct2, THEN conjunct1, rule_format,
      OF g(1) g(2), THEN conjunct1, rule_format, OF g(3)]
  from mem w have a: "load_old_params stage = Inr stage_restored"
    "get_from_queue stage_restored 0 = Inr (restored0, 0)"
    by simp_all
  have sp2: "set_params stash_stage cpu_snapshot0 0 =
      Inr (stash_stage\<lparr>modules := modules stash_stage_restored\<rparr>, cpu_restored0)"
    by (simp add: stash_stage_restored_def stash_stage_def cpu_restored0_def cpu_snapshot0_def
        stage_def gpu_def on_cpu_def cuda_def set_params_def load_state_dict_def copy_t_def)
  have g2: "save_dir stash_stage = None" "1 < num_versions stash_stage"
    "get_from_queue stash_stage 0 = Inr (cpu_snapshot0, 0)" "stash_to_cpu stash_stage"
    by (simp_all add: stash_stage_def stage_def get_from_queue_def py_index_def py_pos_def)
  have w2: "write_slot (stash_stage\<lparr>modules := modules stash_stage_restored\<rparr>) 0 cpu_restored0 0 =
      stash_stage_restored"
    by (simp add: stash_stage_restored_def stash_stage_def stage_def write_slot_def py_store_def
        py_pos_def)
  have m2: "map_of (cpu_snapshot0 ! 0) ''bn.running_mean'' = Some (on_cpu 2)"
    "map_of (modules stash_stage ! 0) ''bn.running_mean'' = Some (on_cpu 7)"
    by (simp_all add: cpu_snapshot0_def stash_stage_def stage_def)
  have i2: "0 < length cpu_snapshot0" "0 < length (modules stash_stage)"
    "''bn.running_mean'' \<in> fst ` set (cpu_snapshot0 ! 0)"
    "py_in ''running_'' ''bn.running_mean'' \<or> py_in ''mask'' ''bn.running_mean''"
    by (simp_all add: cpu_snapshot0_def stash_stage_def stage_def)
  from restore_rebinds_snapshot [OF sp2, THEN conjunct1, rule_format, OF i2] m2(2) g2(4)
  have r2: "map_of (cpu_restored0 ! 0) ''bn.running_mean'' = Some (cuda (on_cpu 7))"
    by simp
  have dv: "device (cuda (on_cpu 7)) = GPU"
    by (simp add: cuda_def on_cpu_def)
  note mem2 = restore_rebinds_snapshot [OF sp2, THEN conjunct2, THEN conjunct1, rule_format,
      OF g2(1) g2(2), THEN conjunct1, rule_format, OF g2(3)]
  from mem2 w2 have a2: "load_old_params stash_stage = Inr stash_stage_restored"
    "get_from_queue stash_stage_restored 0 = Inr (cpu_restored0, 0)"
    by simp_all
  have sp3: "set_params disk_stage snapshot0 0 =
      Inr (disk_stage\<lparr>modules := restored0\<rparr>, restored0)"
    by (simp add: disk_stage_def restored0_def stage_def snapshot0_def gpu_def set_params_def
        load_state_dict_def copy_t_def)
  have g3: "save_dir disk_stage = Some ''ckpt''" "1 < num_versions disk_stage"
    "get_from_queue disk_stage 0 = Inr (snapshot0, 0)"
    by (simp_all add: disk_stage_def stage_def get_from_queue_def py_index_def py_pos_def)
  from g3(1) have d3: "save_dir disk_stage \<noteq> None" by simp
  note disk = restore_rebinds_snapshot [OF sp3, THEN conjunct2, THEN conjunct2, rule_format,
      OF d3]
  from disk have q3: "queue (disk_stage\<lparr>modules := restored0\<rparr>) = queue disk_stage"
    and f3: "files (disk_stage\<lparr>modules := restored0\<rparr>) = files disk_stage"
    and e3: "get_from_queue (disk_stage\<lparr>modules := restored0\<rparr>) 0 = get_from_queue disk_stage 0"
    and l3: "load_old_params disk_stage = Inr (disk_stage\<lparr>modules := restored0\<rparr>)"
    using g3 by simp_all
  from e3 g3 have e3': "get_from_queue (disk_stage\<lparr>modules := restored0\<rparr>) 0 = Inr (snapshot0, 0)"
    by simp
  show ?thesis
    apply (intro conjI)
    apply (rule sp)
    apply (rule g(1))
    apply (rule g(2))
    apply (rule g(3))
    apply (rule m(1))
    apply (rule m(2))
    apply (rule a(1))
    apply (rule a(2))
    apply (rule m(3))
    apply (rule g2(4))
    apply (rule g2(1))
    apply (rule g2(3))
    apply (rule sp2)
    apply (rule m2(1))
    apply (rule m2(2))
    apply (rule r2)
    apply (rule dv)
    apply (rule a2(1))
    apply (rule a2(2))
    apply (rule g3(1))
    apply (rule g3(2))
    apply (rule g3(3))
    apply (rule sp3)
    apply (rule l3)
    apply (rule q3)
    apply (rule f3)
    apply (rule e3')
    done
qed

text \<open>
  The claim as stated fails when \<open>save_dir\<close> is set: the state dicts handed to
  \<open>set_params\<close> are a copy loaded from the file, the restore writes neither the slot
  nor the file, and the snapshot the ring stores still holds the running mean it
  captured (2), not the live one (7).
\<close>

theorem restore_rebinds_snapshot_counterexample:
  "1 < num_versions disk_stage \<and>
   get_from_queue disk_stage 0 = Inr (snapshot0, 0) \<and>
   map_of (modules disk_stage ! 0) ''bn.running_mean'' = Some (gpu 7) \<and>
   load_old_params disk_stage = Inr (disk_stage\<lparr>modules := restored0\<rparr>) \<and>
   get_from_queue (disk_stage\<lparr>modules := restored0\<rparr>) 0 = Inr (snapshot0, 0) \<and>
   map_of (snapshot0 ! 0) ''bn.running_mean'' = Some (gpu 2)"
  by (simp add: disk_stage_def restored0_def stage_def snapshot0_def gpu_def
      load_old_params_def get_from_queue_def py_index_def py_pos_def set_params_def
      load_state_dict_def copy_t_def write_slot_def)

subsection \<open>The ring of snapshots\<close>

lemma get_params_clone_queue [simp]:
  "get_params_clone (s\<lparr>queue := q\<rparr>) = get_params_clone s"
  "get_params_clone (s\<lparr>files := f\<rparr>) = get_params_clone s"
  by (simp_all add: get_params_clone_def)

lemma fill_queue_memory:
  "save_dir s = None \<Longrightarrow> get_params_clone s = (c, v) \<Longrightarrow>
   int (length (queue s)) + int k \<le> num_versions s \<Longrightarrow>
   fill_queue k s = Inr (s\<lparr>queue := queue s @ replicate k (Stashed c v)\<rparr>)"
proof (induction k arbitrary: s)
  case 0
  then show ?case by simp
next
  case (Suc k)
  let ?s1 = "s\<lparr>queue := queue s @ [Stashed c v]\<rparr>"
  from Suc.prems have a: "append_to_queue s (get_params_clone s) = Inr ?s1"
    by (simp add: append_to_queue_def deque_append_def)
  from Suc.prems have "save_dir ?s1 = None" "get_params_clone ?s1 = (c, v)"
    "int (length (queue ?s1)) + int k \<le> num_versions ?s1" by simp_all
  from Suc.IH [OF this] a show ?case
    by (simp add: replicate_app_Cons_same)
qed

lemma fill_queue_disk:
  "save_dir s = Some d \<Longrightarrow> get_params_clone s = (c, v) \<Longrightarrow>
   int (length (queue s)) + int (Suc k) \<le> num_versions s \<Longrightarrow>
   fill_queue (Suc k) s =
     Inr (s\<lparr>files := (files s)((d, v mod num_versions s) \<mapsto> (c, v)),
            queue := queue s @ replicate (Suc k) (File (d, v mod num_versions s))\<rparr>)"
proof (induction k arbitrary: s)
  case 0
  then have "append_to_queue s (c, v) =
      Inr (s\<lparr>files := (files s)((d, v mod num_versions s) \<mapsto> (c, v)),
             queue := queue s @ [File (d, v mod num_versions s)]\<rparr>)"
    unfolding append_to_queue_def deque_append_def Let_def by simp
  with 0 show ?case by (simp del: fun_upd_apply)
next
  case (Suc k)
  let ?f = "(d, v mod num_versions s)"
  let ?s1 = "s\<lparr>files := (files s)(?f \<mapsto> (c, v)), queue := queue s @ [File ?f]\<rparr>"
  from Suc.prems have a: "append_to_queue s (get_params_clone s) = Inr ?s1"
    unfolding append_to_queue_def deque_append_def Let_def by simp
  from Suc.prems have p: "save_dir ?s1 = Some d" "get_params_clone ?s1 = (c, v)"
    "int (length (queue ?s1)) + int (Suc k) \<le> num_versions ?s1" by simp_all
  have "fill_queue (Suc (Suc k)) s = fill_queue (Suc k) ?s1"
    using a by simp
  also have "\<dots> = Inr (?s1\<lparr>files := (files ?s1)((d, v mod num_versions ?s1) \<mapsto> (c, v)),
            queue := queue ?s1 @ replicate (Suc k) (File (d, v mod num_versions ?s1))\<rparr>)"
    by (rule Suc.IH [OF p])
  also have "?s1\<lparr>files := (files ?s1)((d, v mod num_versions ?s1) \<mapsto> (c, v)),
            queue := queue ?s1 @ replicate (Suc k) (File (d, v mod num_versions ?s1))\<rparr> =
      s\<lparr>files := (files s)(?f \<mapsto> (c, v)),
        queue := queue s @ replicate (Suc (Suc k)) (File ?f)\<rparr>"
    by (rule optimizer.equality) simp_all
  finally show ?case .
qed

lemma ring_inv_cong:
  assumes "num_versions s' = num_versions s" "latest_version s' = latest_version s"
    "queue s' = queue s" "save_dir s' = save_dir s" "files s' = files s"
  shows "ring_inv s' = ring_inv s"
  using assms by (simp add: ring_inv_def slot_ok_def slot_tag_def cong: option.case_cong)

lemma py_index_nat: "i < length xs \<Longrightarrow> py_index xs (int i) = Inr (xs ! i)"
  by (simp add: py_index_def py_pos_def)

lemma ring_inv_get:
  assumes "ring_inv s" and "i < length (queue s)"
  shows "\<exists>sds. get_from_queue s (int i) = Inr (sds, slot_tag s i)"
proof -
  from assms have "slot_ok s i" by (simp add: ring_inv_def)
  with assms(2) show ?thesis
    by (cases "save_dir s") (auto simp: slot_ok_def get_from_queue_def py_index_nat)
qed

lemma ring_inv_versions:
  assumes "ring_inv s"
  shows "int (length (queue s)) = num_versions s \<and>
         ring_versions s = map (\<lambda>i. Inr (slot_tag s i)) [0..<nat (num_versions s)]"
proof -
  from assms have l: "length (queue s) = nat (num_versions s)" and n: "1 \<le> num_versions s"
    by (simp_all add: ring_inv_def)
  have "map_sum id snd (get_from_queue s (int i)) = Inr (slot_tag s i)"
    if "i < length (queue s)" for i
    using ring_inv_get [OF assms that] by auto
  then have "ring_versions s = map (\<lambda>i. Inr (slot_tag s i)) [0..<length (queue s)]"
    by (simp add: ring_versions_def)
  with l n show ?thesis by simp
qed

lemma initialize_queue_needs:
  assumes "initialize_queue s = Inr s'"
  shows "1 \<le> num_versions s"
proof (rule ccontr)
  assume "\<not> 1 \<le> num_versions s"
  then consider "num_versions s < 0" | "num_versions s = 0" by linarith
  then show False
  proof cases
    case 1
    with assms show False by (simp add: initialize_queue_def)
  next
    case 2
    with assms show False
      by (cases "save_dir s")
         (simp_all add: initialize_queue_def get_from_queue_def py_index_def py_pos_def)
  qed
qed

lemma initialize_queue_result:
  assumes n: "1 \<le> num_versions s"
  shows "\<exists>s'. initialize_queue s = Inr s' \<and>
           config s' = config s \<and> modules s' = modules s \<and>
           master_parameters s' = master_parameters s \<and>
           base_optimizer s' = base_optimizer s \<and> latest_version s' = latest_version s \<and>
           current_version s' = current_version s \<and> batch_counter s' = batch_counter s \<and>
           stdout s' = stdout s \<and> length (queue s') = nat (num_versions s) \<and>
           (\<forall>i < nat (num_versions s).
              case save_dir s of
                None \<Rightarrow> queue s' ! i = Stashed (fst (get_params_clone s)) (latest_version s)
              | Some d \<Rightarrow>
                  queue s' ! i = File (d, latest_version s mod num_versions s) \<and>
                  files s' (d, latest_version s mod num_versions s) =
                    Some (fst (get_params_clone s), latest_version s))"
proof -
  obtain c where c: "get_params_clone s = (c, latest_version s)"
    by (simp add: get_params_clone_def)
  let ?s0 = "s\<lparr>queue := []\<rparr>"
  have c0: "get_params_clone ?s0 = (c, latest_version s)" using c by simp
  from n obtain k where k: "nat (num_versions s) = Suc k"
    by (cases "nat (num_versions s)") auto
  show ?thesis
  proof (cases "save_dir s")
    case None
    let ?s1 = "?s0\<lparr>queue := queue ?s0 @ replicate (nat (num_versions s)) (Stashed c (latest_version s))\<rparr>"
    from None n have "fill_queue (nat (num_versions s)) ?s0 = Inr ?s1"
      by (intro fill_queue_memory [OF _ c0]) simp_all
    moreover from None n k have "get_from_queue ?s1 0 = Inr (c, latest_version s)"
      by (simp add: get_from_queue_def py_index_def py_pos_def)
    ultimately have "initialize_queue s = Inr (?s1\<lparr>buffered_state_dicts := c\<rparr>)"
      using n by (simp add: initialize_queue_def)
    with None c show ?thesis by (auto simp: config_def)
  next
    case (Some d)
    let ?f = "(d, latest_version s mod num_versions s)"
    let ?s1 = "?s0\<lparr>files := (files ?s0)(?f \<mapsto> (c, latest_version s)),
                    queue := queue ?s0 @ replicate (Suc k) (File ?f)\<rparr>"
    from Some n k have "fill_queue (Suc k) ?s0 = Inr ?s1"
      using fill_queue_disk [of ?s0 d c "latest_version s" k] c0 by simp
    moreover from Some n k have "get_from_queue ?s1 0 = Inr (c, latest_version s)"
      by (simp add: get_from_queue_def py_index_def py_pos_def)
    ultimately have "initialize_queue s = Inr (?s1\<lparr>buffered_state_dicts := c\<rparr>)"
      using n k by (simp add: initialize_queue_def)
    with Some k c show ?thesis by (auto simp: config_def nth_Cons')
  qed
qed

lemma initialize_queue_inv:
  assumes i: "initialize_queue s = Inr s'" and l: "latest_version s = 0"
  shows "ring_inv s'"
proof -
  from initialize_queue_needs [OF i] have n: "1 \<le> num_versions s" .
  from initialize_queue_result [OF n] i l have
    c: "config s' = config s" and l': "latest_version s' = 0" and
    len: "length (queue s') = nat (num_versions s)" and
    slots: "\<forall>i < nat (num_versions s).
              case save_dir s of
                None \<Rightarrow> queue s' ! i = Stashed (fst (get_params_clone s)) 0
              | Some d \<Rightarrow>
                  queue s' ! i = File (d, 0) \<and>
                  files s' (d, 0) = Some (fst (get_params_clone s), 0)"
    by (auto cong: option.case_cong)
  from c have nv: "num_versions s' = num_versions s" and sd: "save_dir s' = save_dir s"
    by (simp_all add: config_def)
  have tag: "slot_tag s' i = 0" if "i < nat (num_versions s)" for i
    using that nv l' by (simp add: slot_tag_def)
  have "slot_ok s' i" if "i < nat (num_versions s)" for i
    using slots that tag [OF that] sd
    by (cases "save_dir s") (auto simp: slot_ok_def)
  with n nv l' len show ?thesis by (simp add: ring_inv_def)
qed

lemma init_cases:
  assumes "init T fs name mods master model lscale nv vfreq mb clip sdir stash = Inr s"
  shows "\<exists>base out.
           initialize_queue
             \<lparr>modules = mods, master_parameters = master, model_parameters = model,
              loss_scale = lscale, clip_grad = clip, save_dir = sdir, stash_to_cpu = stash,
              num_versions = (if mb then min 2 nv else nv), base_optimizer = base,
              latest_version = 0, current_version = 0, queue = [],
              buffered_state_dicts = [], verbose_freq = vfreq, batch_counter = 0,
              update_interval = (if mb then (if mb then min 2 nv else nv) else 1),
              files = fs, stdout = out\<rparr> = Inr s \<and>
           (if len_master master = 0
            then base = None \<and> out = [Text ''Warning: no parameter groups to optimize'']
            else (\<exists>b. optim_new T name master = Inr b \<and> base = Some b) \<and> out = [])"
  using assms
  by (auto simp: init_def Let_def bind_e_eq_Inr split: if_splits)

lemma init_inv:
  assumes "init T fs name mods master model lscale nv vfreq mb clip sdir stash = Inr s"
  shows "ring_inv s"
proof -
  from init_cases [OF assms] obtain s0 :: "('a, 'b) optimizer" where
    "initialize_queue s0 = Inr s" "latest_version s0 = 0"
    by (metis optimizer.select_convs(10))
  then show ?thesis by (rule initialize_queue_inv)
qed

lemma mod_apart:
  fixes a b n :: int
  assumes "a < b" and "b - a < n"
  shows "a mod n \<noteq> b mod n"
proof
  assume "a mod n = b mod n"
  then have "n dvd (b - a)" by (metis mod_eq_dvd_iff)
  with assms show False
    by (metis diff_gt_0_iff_gt zdvd_not_zless)
qed

lemma tl_update0: "tl (xs[0 := x]) = tl xs"
  by (cases xs) simp_all

lemma step_stash_result:
  assumes n: "1 < num_versions s" and len: "length (queue s) = nat (num_versions s)"
    and st: "step_stash s = Inr s'"
  shows "num_versions s' = num_versions s \<and> latest_version s' = latest_version s \<and>
         save_dir s' = save_dir s \<and>
         (case save_dir s of
            None \<Rightarrow> (\<exists>bs. queue s' = tl (queue s) @ [Stashed bs (latest_version s)]) \<and>
                    files s' = files s
          | Some d \<Rightarrow>
              queue s' = tl (queue s) @ [File (d, latest_version s mod num_versions s)] \<and>
              (\<exists>bs. files s' = (files s)((d, latest_version s mod num_versions s) \<mapsto>
                                   (bs, latest_version s))))"
proof -
  from n st obtain sds v s1 d where
    g: "get_params_buffered (s\<lparr>buffered_state_dicts := sds\<rparr>) = Inr (s1, d)" and
    a: "append_to_queue (write_slot s1 0 (fst d) v) d = Inr s'"
    by (auto simp: step_stash_def bind_e_eq_Inr)
  from g obtain bs where d: "d = (bs, latest_version s)"
    and s1: "s1 = s\<lparr>buffered_state_dicts := bs\<rparr>"
    by (auto simp: get_params_buffered_def bind_e_eq_Inr)
  from n len have ne: "queue s \<noteq> []" by auto
  show ?thesis
  proof (cases "save_dir s")
    case None
    with a d s1 n len ne show ?thesis
      by (auto simp: append_to_queue_def write_slot_def py_store_def py_pos_def
          deque_append_def tl_update0 split: if_splits)
  next
    case (Some dir)
    with a d s1 n len show ?thesis
      by (auto simp: append_to_queue_def write_slot_def deque_append_def Let_def
          split: if_splits)
  qed
qed

lemma step_stash_inv:
  assumes inv: "ring_inv s"
    and st: "step_stash (s\<lparr>latest_version := latest_version s + 1\<rparr>) = Inr s'"
  shows "ring_inv s'"
proof (cases "1 < num_versions s")
  case False
  with st have "s' = s\<lparr>latest_version := latest_version s + 1\<rparr>"
    by (simp add: step_stash_def)
  with inv False show ?thesis
    by (simp add: ring_inv_def slot_ok_def slot_tag_def cong: option.case_cong)
next
  case True
  let ?n = "num_versions s" and ?L = "latest_version s"
  let ?s1 = "s\<lparr>latest_version := ?L + 1\<rparr>"
  from inv have len: "length (queue s) = nat ?n" and L: "0 \<le> ?L"
    and ok: "\<And>i. i < nat ?n \<Longrightarrow> slot_ok s i"
    by (simp_all add: ring_inv_def)
  from True len have "1 < num_versions ?s1" "length (queue ?s1) = nat (num_versions ?s1)"
    by simp_all
  from step_stash_result [OF this st]
  have nv: "num_versions s' = ?n" and lv: "latest_version s' = ?L + 1"
    and sd: "save_dir s' = save_dir s"
    and res: "case save_dir s of
            None \<Rightarrow> (\<exists>bs. queue s' = tl (queue s) @ [Stashed bs (?L + 1)]) \<and>
                    files s' = files s
          | Some d \<Rightarrow>
              queue s' = tl (queue s) @ [File (d, (?L + 1) mod ?n)] \<and>
              (\<exists>bs. files s' = (files s)((d, (?L + 1) mod ?n) \<mapsto> (bs, ?L + 1)))"
    by (simp_all cong: option.case_cong)
  from res len True have len': "length (queue s') = nat ?n"
    by (cases "save_dir s") auto
  have "slot_ok s' i" if i: "i < nat ?n" for i
  proof (cases "Suc i < nat ?n")
    case old: True
    then have tag: "slot_tag s' i = slot_tag s (Suc i)"
      using True nv lv by (simp add: slot_tag_def)
    from old len have "i < length (tl (queue s))" by simp
    then have nth: "(tl (queue s) @ [e]) ! i = queue s ! Suc i" for e
      by (simp add: nth_append nth_tl)
    from ok [OF old] have o: "slot_ok s (Suc i)" .
    show ?thesis
    proof (cases "save_dir s")
      case None
      with res o nth tag sd show ?thesis by (auto simp: slot_ok_def)
    next
      case (Some d)
      let ?t = "slot_tag s (Suc i)"
      from old True L have "?t < ?L + 1" "?L + 1 - ?t < ?n"
        by (auto simp: slot_tag_def)
      then have "?t mod ?n \<noteq> (?L + 1) mod ?n" by (rule mod_apart)
      with Some res o nth tag sd nv show ?thesis by (auto simp: slot_ok_def)
    qed
  next
    case new: False
    with i have ieq: "i = nat ?n - 1" by simp
    with True have tag: "slot_tag s' i = ?L + 1"
      using nv lv L by (auto simp: slot_tag_def)
    from ieq len True have nth: "(tl (queue s) @ [e]) ! i = e" for e
      by (simp add: nth_append)
    show ?thesis
    proof (cases "save_dir s")
      case None
      with res nth tag sd show ?thesis by (auto simp: slot_ok_def)
    next
      case (Some d)
      with res nth tag sd nv show ?thesis by (auto simp: slot_ok_def)
    qed
  qed
  with True nv lv L len' show ?thesis by (simp add: ring_inv_def)
qed

lemma py_pos_less: "py_pos n i = Some k \<Longrightarrow> k < n"
  by (auto simp: py_pos_def split: if_splits)

lemma write_slot_inv:
  assumes inv: "ring_inv s" and g: "get_from_queue s idx = Inr (sds, v)"
  shows "ring_inv (write_slot s idx sds' v)"
proof (cases "save_dir s")
  case (Some d)
  then show ?thesis using inv by (simp add: write_slot_def)
next
  case None
  with g obtain k where k: "py_pos (length (queue s)) idx = Some k"
    and q: "queue s ! k = Stashed sds v"
    by (auto simp: get_from_queue_def py_index_def bind_e_eq_Inr
        split: option.splits entry.splits)
  let ?s' = "write_slot s idx sds' v"
  from None k have q': "queue ?s' = (queue s)[k := Stashed sds' v]"
    by (simp add: write_slot_def py_store_def)
  from None have same: "num_versions ?s' = num_versions s" "latest_version ?s' = latest_version s"
    "save_dir ?s' = None" "files ?s' = files s"
    by (simp_all add: write_slot_def)
  from inv have ok: "\<And>i. i < length (queue s) \<Longrightarrow> slot_ok s i"
    by (simp add: ring_inv_def)
  have tag: "slot_tag ?s' i = slot_tag s i" for i
    using same by (simp add: slot_tag_def)
  have "slot_ok ?s' i" if i: "i < length (queue s)" for i
  proof (cases "i = k")
    case True
    from ok [OF i] q None True have "v = slot_tag s i" by (simp add: slot_ok_def)
    then have "queue ?s' ! i = Stashed sds' (slot_tag ?s' i)"
      using True i q' tag by simp
    with same show ?thesis by (simp add: slot_ok_def)
  next
    case False
    from ok [OF i] None obtain x where "queue s ! i = Stashed x (slot_tag s i)"
      by (auto simp: slot_ok_def)
    then have "queue ?s' ! i = Stashed x (slot_tag ?s' i)"
      using False q' tag by simp
    with same show ?thesis by (simp add: slot_ok_def)
  qed
  with inv q' same show ?thesis by (simp add: ring_inv_def)
qed

lemma set_params_inv:
  assumes "ring_inv s" and "set_params s sds v = Inr (s', sds')"
  shows "ring_inv s' \<and> get_from_queue s' idx = get_from_queue s idx"
proof -
  from set_params_keeps [OF assms(2)] have
    k: "num_versions s' = num_versions s" "latest_version s' = latest_version s"
       "queue s' = queue s" "save_dir s' = save_dir s" "files s' = files s"
    by (simp_all add: config_def)
  from ring_inv_cong [OF k] assms(1) k show ?thesis
    by (simp add: get_from_queue_def cong: option.case_cong entry.case_cong)
qed

lemma load_old_params_inv:
  assumes "ring_inv s" and "load_old_params s = Inr s'"
  shows "ring_inv s'"
proof (cases "1 < num_versions s")
  case False
  with assms show ?thesis by (simp add: load_old_params_def)
next
  case True
  with assms(2) obtain sds v s1 sds' where g: "get_from_queue s 0 = Inr (sds, v)"
    and sp: "set_params s sds v = Inr (s1, sds')" and s': "s' = write_slot s1 0 sds' v"
    by (auto simp: load_old_params_def bind_e_eq_Inr)
  from set_params_inv [OF assms(1) sp, of 0] g
  have "ring_inv s1" "get_from_queue s1 0 = Inr (sds, v)" by simp_all
  then show ?thesis unfolding s' by (rule write_slot_inv)
qed

lemma load_new_params_inv:
  assumes "ring_inv s" and "load_new_params s = Inr s'"
  shows "ring_inv s'"
proof (cases "1 < num_versions s")
  case False
  with assms show ?thesis by (simp add: load_new_params_def)
next
  case True
  with assms(2) obtain sds v s1 sds' where g: "get_from_queue s (- 1) = Inr (sds, v)"
    and sp: "set_params s sds v = Inr (s1, sds')" and s': "s' = write_slot s1 (- 1) sds' v"
    by (auto simp: load_new_params_def bind_e_eq_Inr)
  from set_params_inv [OF assms(1) sp, of "- 1"] g
  have "ring_inv s1" "get_from_queue s1 (- 1) = Inr (sds, v)" by simp_all
  then show ?thesis unfolding s' by (rule write_slot_inv)
qed

lemma zero_grad_inv:
  assumes "ring_inv s" and "zero_grad s = Inr s'"
  shows "ring_inv s'"
proof -
  from assms(2) have "num_versions s' = num_versions s" "latest_version s' = latest_version s"
    "queue s' = queue s" "save_dir s' = save_dir s" "files s' = files s"
    by (auto simp: zero_grad_def split: option.splits if_splits)
  from ring_inv_cong [OF this] assms(1) show ?thesis by simp
qed

lemma step_inv:
  assumes inv: "ring_inv s" and st: "step T s = Inr (s', r)"
  shows "ring_inv s'"
proof -
  from st have u: "update_interval s \<noteq> 0"
    by (auto simp: step_def split: if_splits)
  show ?thesis
  proof (cases "batch_counter s mod update_interval s = update_interval s - 1")
    case False
    with st u have "s' = s\<lparr>batch_counter := batch_counter s + 1\<rparr>"
      by (simp add: step_def)
    then have "num_versions s' = num_versions s" "latest_version s' = latest_version s"
      "queue s' = queue s" "save_dir s' = save_dir s" "files s' = files s"
      by simp_all
    from ring_inv_cong [OF this] inv show ?thesis by simp
  next
    case True
    from step_ready [OF u True st] obtain s3 s4 s5 s6 where
      g: "step_grads T s = Inr s3" and up: "step_update T s3 = Inr (s4, r)" and
      p: "step_fp16_params T s4 = Inr s5" and
      sh: "step_stash (s5\<lparr>latest_version := latest_version s5 + 1\<rparr>) = Inr s6" and
      s': "s' = s6\<lparr>stdout := (if 0 < verbose_freq s \<and> batch_counter s mod verbose_freq s = 0
                               then stdout s6 @ [Step_took] else stdout s6),
                    batch_counter := batch_counter s6 + 1\<rparr>"
      by blast
    from step_grads_keeps [OF g] step_update_keeps [OF up] step_fp16_params_keeps [OF p]
    have "num_versions s5 = num_versions s" "latest_version s5 = latest_version s"
      "queue s5 = queue s" "save_dir s5 = save_dir s" "files s5 = files s"
      by (simp_all add: config_def)
    from ring_inv_cong [OF this] inv have "ring_inv s5" by simp
    from step_stash_inv [OF this sh] have "ring_inv s6" .
    moreover have "num_versions s' = num_versions s6" "latest_version s' = latest_version s6"
      "queue s' = queue s6" "save_dir s' = save_dir s6" "files s' = files s6"
      by (simp_all add: s')
    from ring_inv_cong [OF this] have "ring_inv s' = ring_inv s6" .
    ultimately show ?thesis by simp
  qed
qed

lemma call_op_inv:
  "ring_inv s \<Longrightarrow> call_op T c s = Inr (s', r) \<Longrightarrow> ring_inv s'"
  by (cases c)
     (auto simp: bind_e_eq_Inr
           dest: step_inv zero_grad_inv load_old_params_inv load_new_params_inv)

lemma run_inv:
  "ring_inv s \<Longrightarrow> run T cs s = Inr (s', rs) \<Longrightarrow> ring_inv s'"
proof (induction cs arbitrary: s rs)
  case Nil
  then show ?case by simp
next
  case (Cons c cs)
  from Cons.prems(2) obtain s1 r rs1 where c: "call_op T c s = Inr (s1, r)"
    and r: "run T cs s1 = Inr (s', rs1)"
    by (auto simp: bind_e_eq_Inr)
  from call_op_inv [OF Cons.prems(1) c] r show ?case by (rule Cons.IH)
qed

subsection \<open>The version tags of the ring\<close>

text \<open>
  C2 (as amended).  After initialization and after every sequence of calls that return
  normally, the ring contains exactly \<open>num_versions\<close> snapshots.  With
  \<open>num_versions > 1\<close> the slot at position \<open>i\<close> from the oldest is tagged
  \<open>max 0 (latest_version - num_versions + 1 + i)\<close>: all slots are tagged 0 right after
  initialization, and once \<open>latest_version \<ge> num_versions - 1\<close> the tags are the
  contiguous integers from \<open>latest_version - num_versions + 1\<close> (oldest) up to
  \<open>latest_version\<close> (newest).  With \<open>num_versions = 1\<close> the single slot keeps the tag 0.
\<close>

theorem ring_versions_after_calls:
  assumes "init T fs name mods master model lscale nv vfreq mb clip sdir stash = Inr s0"
    and "run T calls s0 = Inr (s, rs)"
  shows "int (length (queue s)) = num_versions s \<and>
         ring_versions s =
           map (\<lambda>i. Inr (if 1 < num_versions s
                          then max 0 (latest_version s - num_versions s + 1 + int i)
                          else 0))
             [0..<nat (num_versions s)] \<and>
         (1 < num_versions s \<and> num_versions s - 1 \<le> latest_version s \<longrightarrow>
            ring_versions s =
              map (\<lambda>i. Inr (latest_version s - num_versions s + 1 + int i))
                [0..<nat (num_versions s)])"
proof -
  from init_inv [OF assms(1)] have "ring_inv s0" .
  from run_inv [OF this assms(2)] have "ring_inv s" .
  from ring_inv_versions [OF this]
  have l: "int (length (queue s)) = num_versions s"
    and v: "ring_versions s = map (\<lambda>i. Inr (slot_tag s i)) [0..<nat (num_versions s)]"
    by simp_all
  have "slot_tag s i = latest_version s - num_versions s + 1 + int i"
    if "1 < num_versions s" "num_versions s - 1 \<le> latest_version s" for i
    using that by (simp add: slot_tag_def)
  with l v show ?thesis by (simp add: slot_tag_def)
qed

theorem ring_versions_after_calls_witness:
  "init counting_torch Map.empty ''SGD'' live0 (Tensors [\<lparr>grad = Some (gpu 6)\<rparr>])
      None 1 2 0 True None None False = Inr fresh_stage \<and>
   run counting_torch [Step, Step] fresh_stage = Inr (fresh_stage_stepped, [None, None]) \<and>
   num_versions fresh_stage_stepped = 2 \<and> latest_version fresh_stage_stepped = 1 \<and>
   int (length (queue fresh_stage_stepped)) = num_versions fresh_stage_stepped \<and>
   ring_versions fresh_stage_stepped = [Inr 0, Inr 1]"
proof -
  have i: "init counting_torch Map.empty ''SGD'' live0 (Tensors [\<lparr>grad = Some (gpu 6)\<rparr>])
      None 1 2 0 True None None False = Inr fresh_stage"
    by (simp add: init_def counting_torch_def initialize_queue_def eval_nat_numeral
        append_to_queue_def get_params_clone_def deque_append_def capture_def clone_def
        get_from_queue_def py_index_def py_pos_def fresh_stage_def stage_def live0_def
        snapshot0_def gpu_def)
  have r: "run counting_torch [Step, Step] fresh_stage =
      Inr (fresh_stage_stepped, [None, None])"
    by (simp add: fresh_stage_stepped_def fresh_stage_def live0_def
        stage_def step_def step_fp16_grads_def
        step_average_def step_clip_def step_update_def step_fp16_params_def step_stash_def
        param_groups0_def put_params0_def counting_torch_def div_grad_def gpu_def
        get_from_queue_def py_index_def py_pos_def get_params_buffered_def snapshot0_def
        append_to_queue_def write_slot_def py_store_def deque_append_def copy_t_def
        capture_def clone_def)
  have n: "num_versions fresh_stage_stepped = 2" "latest_version fresh_stage_stepped = 1"
    by (simp_all add: fresh_stage_stepped_def fresh_stage_def stage_def)
  from ring_versions_after_calls [OF i r] n
  have "int (length (queue fresh_stage_stepped)) = num_versions fresh_stage_stepped \<and>
        ring_versions fresh_stage_stepped = [Inr 0, Inr 1]"
    by (simp add: eval_nat_numeral)
  with i r n show ?thesis by simp
qed

text \<open>
  The claim as stated fails right after initialization: with \<open>num_versions = 2\<close> both
  slots are tagged 0 = \<open>latest_version\<close>, so the oldest slot is not tagged
  \<open>latest_version - num_versions + 1 = - 1\<close>.
\<close>

theorem ring_versions_after_calls_counterexample:
  "map_sum id ring_versions
     (init counting_torch Map.empty ''SGD'' live0 (Tensors [\<lparr>grad = Some (gpu 6)\<rparr>])
        None 1 2 0 False None None False) = Inr [Inr 0, Inr 0] \<and>
   map_sum id latest_version
     (init counting_torch Map.empty ''SGD'' live0 (Tensors [\<lparr>grad = Some (gpu 6)\<rparr>])
        None 1 2 0 False None None False) = Inr 0 \<and>
   map_sum id num_versions
     (init counting_torch Map.empty ''SGD'' live0 (Tensors [\<lparr>grad = Some (gpu 6)\<rparr>])
        None 1 2 0 False None None False) = Inr 2"
  by (simp add: init_def counting_torch_def initialize_queue_def eval_nat_numeral
      append_to_queue_def get_params_clone_def deque_append_def capture_def clone_def
      get_from_queue_def py_index_def py_pos_def ring_versions_def)

subsection \<open>zero_grad\<close>

text \<open>Only \<open>step\<close> advances the batch counter, by one for every call.\<close>

lemma step_counter:
  assumes "step T s = Inr (s', r)"
  shows "batch_counter s' = batch_counter s + 1 \<and> update_interval s' = update_interval s \<and>
         (base_optimizer s \<noteq> None \<longrightarrow> base_optimizer s' \<noteq> None)"
proof -
  from assms have u: "update_interval s \<noteq> 0"
    by (auto simp: step_def split: if_splits)
  show ?thesis
  proof (cases "batch_counter s mod update_interval s = update_interval s - 1")
    case False
    with assms u show ?thesis by (auto simp: step_def)
  next
    case True
    from step_ready [OF u True assms] obtain s3 s4 s5 s6 where
      g: "step_grads T s = Inr s3" and up: "step_update T s3 = Inr (s4, r)" and
      p: "step_fp16_params T s4 = Inr s5" and
      st: "step_stash (s5\<lparr>latest_version := latest_version s5 + 1\<rparr>) = Inr s6" and
      s': "s' = s6\<lparr>stdout := (if 0 < verbose_freq s \<and> batch_counter s mod verbose_freq s = 0
                               then stdout s6 @ [Step_took] else stdout s6),
                    batch_counter := batch_counter s6 + 1\<rparr>"
      by blast
    note k = step_grads_keeps [OF g] step_update_keeps [OF up] step_fp16_params_keeps [OF p]
      step_stash_keeps [OF st]
    have b: "base_optimizer s \<noteq> None \<longrightarrow> base_optimizer s4 \<noteq> None"
      using step_update_base [OF up] k by (auto split: option.splits)
    from k b show ?thesis by (auto simp: s' config_def)
  qed
qed

lemma zero_grad_counter:
  "zero_grad s = Inr s' \<Longrightarrow>
   batch_counter s' = batch_counter s \<and> update_interval s' = update_interval s \<and>
   base_optimizer s' = base_optimizer s"
  by (auto simp: zero_grad_def split: option.splits if_splits)

lemma load_old_params_counter:
  "load_old_params s = Inr s' \<Longrightarrow>
   batch_counter s' = batch_counter s \<and> update_interval s' = update_interval s \<and>
   base_optimizer s' = base_optimizer s"
proof (cases "1 < num_versions s")
  case False
  assume "load_old_params s = Inr s'"
  with False show ?thesis by (simp add: load_old_params_def)
next
  case True
  assume "load_old_params s = Inr s'"
  with True obtain sds v s1 sds1 where
    sp: "set_params s sds v = Inr (s1, sds1)" and s': "s' = write_slot s1 0 sds1 v"
    by (auto simp: load_old_params_def bind_e_eq_Inr)
  from set_params_keeps [OF sp] write_slot_keeps [of s1 0 sds1 v] show ?thesis
    by (simp add: s' config_def)
qed

lemma load_new_params_counter:
  "load_new_params s = Inr s' \<Longrightarrow>
   batch_counter s' = batch_counter s \<and> update_interval s' = update_interval s \<and>
   base_optimizer s' = base_optimizer s"
proof (cases "1 < num_versions s")
  case False
  assume "load_new_params s = Inr s'"
  with False show ?thesis by (simp add: load_new_params_def)
next
  case True
  assume "load_new_params s = Inr s'"
  with True obtain sds v s1 sds1 where
    sp: "set_params s sds v = Inr (s1, sds1)" and s': "s' = write_slot s1 (- 1) sds1 v"
    by (auto simp: load_new_params_def bind_e_eq_Inr)
  from set_params_keeps [OF sp] write_slot_keeps [of s1 "- 1" sds1 v] show ?thesis
    by (simp add: s' config_def)
qed

lemma call_op_counter:
  assumes "call_op T c s = Inr (s', r)"
  shows "batch_counter s' = batch_counter s + (if c = Step then 1 else 0) \<and>
         update_interval s' = update_interval s \<and>
         (base_optimizer s \<noteq> None \<longrightarrow> base_optimizer s' \<noteq> None)"
proof (cases c)
  case Step
  with assms step_counter [of T s s' r] show ?thesis by simp
next
  case Zero_grad
  with assms zero_grad_counter [of s s'] show ?thesis by (auto simp: bind_e_eq_Inr)
next
  case Load_old_params
  with assms load_old_params_counter [of s s'] show ?thesis by (auto simp: bind_e_eq_Inr)
next
  case Load_new_params
  with assms load_new_params_counter [of s s'] show ?thesis by (auto simp: bind_e_eq_Inr)
qed

lemma run_counter:
  "run T cs s = Inr (t, rs) \<Longrightarrow>
   batch_counter t = batch_counter s + int (count_list cs Step) \<and>
   update_interval t = update_interval s \<and>
   (base_optimizer s \<noteq> None \<longrightarrow> base_optimizer t \<noteq> None)"
proof (induction cs arbitrary: s rs)
  case Nil
  then show ?case by simp
next
  case (Cons c cs)
  then obtain s1 r rs1 where c: "call_op T c s = Inr (s1, r)" and
    rest: "run T cs s1 = Inr (t, rs1)"
    by (auto simp: bind_e_eq_Inr)
  from call_op_counter [OF c] Cons.IH [OF rest] show ?case by auto
qed

text \<open>
  C5 (as amended).  With a base optimizer and \<open>update_interval \<ge> 1\<close>, \<open>zero_grad\<close>
  returns normally; it clears the gradient of every parameter of the underlying
  optimizer exactly when \<open>batch_counter mod update_interval = 0\<close> and otherwise leaves
  the whole state, all gradients included, unchanged.  It never writes
  \<open>batch_counter\<close>: only \<open>step\<close> advances it.  So, starting where
  \<open>batch_counter mod update_interval = 0\<close>, after any sequence of calls that returns
  normally and contains \<open>k < update_interval\<close> calls of \<open>step\<close>, and whatever gradients
  the backward passes have left meanwhile, a \<open>zero_grad\<close> call clears them when
  \<open>k = 0\<close> and is a no-op when \<open>k > 0\<close>: of the \<open>zero_grad\<close> calls of one accumulation
  window, one before each \<open>step\<close>, only the first clears, while calls made in a row
  with no \<open>step\<close> between them all run at one counter and all clear, or none does.
\<close>

theorem zero_grad_window:
  fixes s :: "('a, 'o) optimizer" and T :: "('a, 'o, 'l) torch"
  assumes "1 \<le> update_interval s" and "base_optimizer s = Some b"
  shows "zero_grad s =
           Inr (if batch_counter s mod update_interval s = 0
                then s\<lparr>master_parameters := map_groups clear_grad (master_parameters s)\<rparr>
                else s) \<and>
         (\<forall>s1. zero_grad s = Inr s1 \<longrightarrow> batch_counter s1 = batch_counter s) \<and>
         (batch_counter s mod update_interval s = 0 \<longrightarrow>
            (\<forall>cs t rs m. run T cs s = Inr (t, rs) \<longrightarrow>
               int (count_list cs Step) < update_interval s \<longrightarrow>
               zero_grad (t\<lparr>master_parameters := m\<rparr>) =
                 Inr (if count_list cs Step = 0
                      then t\<lparr>master_parameters := map_groups clear_grad m\<rparr>
                      else t\<lparr>master_parameters := m\<rparr>)))"
proof (intro conjI impI allI)
  show "zero_grad s =
           Inr (if batch_counter s mod update_interval s = 0
                then s\<lparr>master_parameters := map_groups clear_grad (master_parameters s)\<rparr>
                else s)"
    using assms by (simp add: zero_grad_def)
next
  fix s1
  assume "zero_grad s = Inr s1"
  from zero_grad_counter [OF this] show "batch_counter s1 = batch_counter s" by simp
next
  fix cs t rs and m :: "'a master"
  assume w: "batch_counter s mod update_interval s = 0"
    and r: "run T cs s = Inr (t, rs)"
    and k: "int (count_list cs Step) < update_interval s"
  define n where "n = int (count_list cs Step)"
  from run_counter [OF r] assms obtain b' where
    t: "batch_counter t = batch_counter s + n" "update_interval t = update_interval s"
       "base_optimizer t = Some b'"
    by (auto simp: n_def)
  have n: "0 \<le> n" "n < update_interval s" using k by (simp_all add: n_def)
  from w n have "(batch_counter s + n) mod update_interval s = n"
    by (metis add.commute mod_add_right_eq mod_pos_pos_trivial add.right_neutral)
  with t have m0: "batch_counter t mod update_interval t = 0 \<longleftrightarrow> count_list cs Step = 0"
    by (simp add: n_def)
  from assms t have u: "update_interval t \<noteq> 0" by simp
  show "zero_grad (t\<lparr>master_parameters := m\<rparr>) =
          Inr (if count_list cs Step = 0
               then t\<lparr>master_parameters := map_groups clear_grad m\<rparr>
               else t\<lparr>master_parameters := m\<rparr>)"
    using t u m0 by (simp add: zero_grad_def)
qed

theorem zero_grad_window_witness:
  "1 \<le> update_interval stage \<and> base_optimizer stage = Some 0 \<and>
   batch_counter stage mod update_interval stage = 0 \<and>
   zero_grad stage = Inr (stage\<lparr>master_parameters := Tensors [\<lparr>grad = None\<rparr>]\<rparr>) \<and>
   batch_counter (stage\<lparr>master_parameters := Tensors [\<lparr>grad = None\<rparr>]\<rparr>) =
     batch_counter stage \<and>
   run counting_torch [Zero_grad, Step] stage =
     Inr (stage\<lparr>master_parameters := Tensors [\<lparr>grad = None\<rparr>], batch_counter := 1\<rparr>,
          [None, None]) \<and>
   int (count_list [Zero_grad, Step] Step) < update_interval stage \<and>
   zero_grad (stage\<lparr>batch_counter := 1,
                    master_parameters := Tensors [\<lparr>grad = Some (gpu 6)\<rparr>]\<rparr>) =
     Inr (stage\<lparr>batch_counter := 1, master_parameters := Tensors [\<lparr>grad = Some (gpu 6)\<rparr>]\<rparr>)"
proof -
  let ?c = "stage\<lparr>master_parameters := Tensors [\<lparr>grad = None\<rparr>]\<rparr>"
  let ?t = "stage\<lparr>master_parameters := Tensors [\<lparr>grad = None\<rparr>], batch_counter := 1\<rparr>"
  let ?m = "Tensors [\<lparr>grad = Some (gpu 6)\<rparr>]"
  have f: "update_interval stage = 2" "base_optimizer stage = Some 0" "batch_counter stage = 0"
    "master_parameters stage = ?m"
    by (simp_all add: stage_def)
  have u: "1 \<le> update_interval stage" and b: "base_optimizer stage = Some 0"
    and w: "batch_counter stage mod update_interval stage = 0"
    by (simp_all add: f)
  have zc: "zero_grad stage = Inr ?c"
    by (simp add: zero_grad_def f clear_grad_def)
  have st: "step counting_torch ?c = Inr (?t, None)"
    by (simp add: step_def f)
  have r: "run counting_torch [Zero_grad, Step] stage = Inr (?t, [None, None])"
    by (simp add: zc st)
  have k: "int (count_list [Zero_grad, Step] Step) < update_interval stage"
    by (simp add: f)
  have k0: "count_list [Zero_grad, Step] Step \<noteq> 0"
    by simp
  note z = zero_grad_window [OF u b, where T = counting_torch]
  from z w f have 1: "zero_grad stage = Inr ?c"
    by (simp add: clear_grad_def)
  from z [THEN conjunct2, THEN conjunct1, rule_format, OF 1]
  have 2: "batch_counter ?c = batch_counter stage" .
  from z [THEN conjunct2, THEN conjunct2, rule_format, OF w r k, of ?m] k0
  have "zero_grad (?t\<lparr>master_parameters := ?m\<rparr>) = Inr (?t\<lparr>master_parameters := ?m\<rparr>)"
    by simp
  then have 3: "zero_grad (stage\<lparr>batch_counter := 1, master_parameters := ?m\<rparr>) =
     Inr (stage\<lparr>batch_counter := 1, master_parameters := ?m\<rparr>)"
    by simp
  show ?thesis
    apply (intro conjI)
    apply (rule u)
    apply (rule b)
    apply (rule w)
    apply (rule 1)
    apply (rule 2)
    apply (rule r)
    apply (rule k)
    apply (rule 3)
    done
qed

text \<open>
  The claim as it was made fails for calls made in a row, because they all run at one
  batch counter.  With \<open>update_interval = 2\<close>: at batch counter 1 two calls in a row
  clear nothing, the gradient 6 is still there; at batch counter 0 the first call
  clears, and when a backward pass has left the gradient 6 again the second call
  clears it again instead of keeping it.
\<close>

theorem zero_grad_window_counterexample:
  "update_interval (stage\<lparr>batch_counter := 1\<rparr>) = 2 \<and>
   master_parameters (stage\<lparr>batch_counter := 1\<rparr>) = Tensors [\<lparr>grad = Some (gpu 6)\<rparr>] \<and>
   run counting_torch [Zero_grad, Zero_grad] (stage\<lparr>batch_counter := 1\<rparr>) =
     Inr (stage\<lparr>batch_counter := 1\<rparr>, [None, None]) \<and>
   update_interval stage = 2 \<and> batch_counter stage = 0 \<and>
   master_parameters stage = Tensors [\<lparr>grad = Some (gpu 6)\<rparr>] \<and>
   zero_grad stage = Inr (stage\<lparr>master_parameters := Tensors [\<lparr>grad = None\<rparr>]\<rparr>) \<and>
   zero_grad ((stage\<lparr>master_parameters := Tensors [\<lparr>grad = None\<rparr>]\<rparr>)
                \<lparr>master_parameters := Tensors [\<lparr>grad = Some (gpu 6)\<rparr>]\<rparr>) =
     Inr (stage\<lparr>master_parameters := Tensors [\<lparr>grad = None\<rparr>]\<rparr>) \<and>
   master_parameters (stage\<lparr>master_parameters := Tensors [\<lparr>grad = None\<rparr>]\<rparr>) \<noteq>
     Tensors [\<lparr>grad = Some (gpu 6)\<rparr>]"
proof -
  have f: "update_interval stage = 2" "base_optimizer stage = Some 0" "batch_counter stage = 0"
    "master_parameters stage = Tensors [\<lparr>grad = Some (gpu 6)\<rparr>]"
    by (simp_all add: stage_def)
  have z1: "zero_grad (stage\<lparr>batch_counter := 1\<rparr>) = Inr (stage\<lparr>batch_counter := 1\<rparr>)"
    by (simp add: zero_grad_def f)
  have r: "run counting_torch [Zero_grad, Zero_grad] (stage\<lparr>batch_counter := 1\<rparr>) =
     Inr (stage\<lparr>batch_counter := 1\<rparr>, [None, None])"
    by (simp add: z1)
  have z0: "zero_grad stage = Inr (stage\<lparr>master_parameters := Tensors [\<lparr>grad = None\<rparr>]\<rparr>)"
    by (simp add: zero_grad_def f clear_grad_def)
  have z2: "zero_grad ((stage\<lparr>master_parameters := Tensors [\<lparr>grad = None\<rparr>]\<rparr>)
                \<lparr>master_parameters := Tensors [\<lparr>grad = Some (gpu 6)\<rparr>]\<rparr>) =
     Inr (stage\<lparr>master_parameters := Tensors [\<lparr>grad = None\<rparr>]\<rparr>)"
    by (simp add: zero_grad_def f clear_grad_def)
  from f r z0 z2 show ?thesis by simp
qed

subsection \<open>Averaging the gradients\<close>





subsection \<open>Restoring with a single version\<close>

text \<open>
  C7.  When \<open>num_versions\<close> is 1, \<open>load_old_params\<close> and \<open>load_new_params\<close> return
  normally and leave the whole state, the live modules included, as it was.
\<close>

theorem load_params_single_version:
  assumes "num_versions s = 1"
  shows "load_old_params s = Inr s \<and> load_new_params s = Inr s"
  using assms by (simp add: load_old_params_def load_new_params_def)

theorem load_params_single_version_witness:
  "num_versions (stage\<lparr>num_versions := 1\<rparr>) = 1 \<and>
   load_old_params (stage\<lparr>num_versions := 1\<rparr>) = Inr (stage\<lparr>num_versions := 1\<rparr>) \<and>
   load_new_params (stage\<lparr>num_versions := 1\<rparr>) = Inr (stage\<lparr>num_versions := 1\<rparr>)"
  using load_params_single_version [of "stage\<lparr>num_versions := 1\<rparr>"] by simp

subsection \<open>An optimizer without parameters\<close>

lemma update_buffered_keys:
  "set (map fst rest) \<subseteq> set (map fst b) \<Longrightarrow>
   \<exists>b'. update_buffered stash b rest = Inr b' \<and> map fst b' = map fst b"
proof (induction rest arbitrary: b)
  case Nil
  then show ?case by simp
next
  case (Cons kt rest)
  obtain key t where kt: "kt = (key, t)" by (cases kt)
  from Cons.prems kt have key: "key \<in> set (map fst b)" and rest: "set (map fst rest) \<subseteq> set (map fst b)"
    by simp_all
  from key obtain x where x: "map_of b key = Some x"
    by (metis map_of_eq_None_iff not_None_eq set_map)
  have upd: "map fst (AList.update key y b) = map fst b" for y
    using key by (simp add: update_keys)
  show ?case
  proof (cases "py_in ''running_'' key")
    case True
    with Cons.IH [OF rest] kt show ?thesis by simp
  next
    case r: False
    show ?thesis
    proof (cases "py_in ''mask'' key")
      case True
      from rest upd have "set (map fst rest) \<subseteq> set (map fst (AList.update key (capture stash t) b))"
        by simp
      from Cons.IH [OF this] r True kt upd show ?thesis by simp
    next
      case False
      let ?b1 = "AList.update key (copy_t x (if stash then cpu t else t)) b"
      from rest upd have "set (map fst rest) \<subseteq> set (map fst ?b1)" by simp
      from Cons.IH [OF this] r False kt upd x show ?thesis by simp
    qed
  qed
qed

lemma update_buffered_all_keys:
  "same_keys bs ms \<Longrightarrow>
   \<exists>bs'. update_buffered_all stash bs ms = Inr bs' \<and> same_keys bs' ms"
proof (induction stash bs ms rule: update_buffered_all.induct)
  case (1 stash bs)
  then show ?case by simp
next
  case (2 stash m ms)
  then show ?case by (simp add: same_keys_def)
next
  case (3 stash b bs m ms)
  from "3.prems" have k: "map fst b = map fst m" and rest: "same_keys bs ms"
    by (simp_all add: same_keys_def)
  from k have "set (map fst m) \<subseteq> set (map fst b)" by simp
  from update_buffered_keys [OF this, of stash] obtain b' where
    b': "update_buffered stash b m = Inr b'" "map fst b' = map fst b" by blast
  from "3.IH" [OF rest] obtain bs' where
    bs': "update_buffered_all stash bs ms = Inr bs'" "same_keys bs' ms" by blast
  from b' bs' k show ?case by (simp add: same_keys_def)
qed

lemma rebind_live_total:
  "set keys \<subseteq> set (map fst cur) \<Longrightarrow> \<exists>sd'. rebind_live stash cur keys sd = Inr sd'"
proof (induction keys arbitrary: sd)
  case Nil
  then show ?case by simp
next
  case (Cons key keys)
  then obtain t where "map_of cur key = Some t"
    by (metis list.set_intros(1) map_of_eq_None_iff not_None_eq set_map subsetD)
  with Cons show ?case by simp
qed

lemma set_params_loop_total:
  "same_keys sds ms \<Longrightarrow>
   \<exists>sds' ms'. set_params_loop stash sds ms = Inr (sds', ms') \<and>
     same_keys sds' ms \<and> map (map fst) ms' = map (map fst) ms"
proof (induction stash sds ms rule: set_params_loop.induct)
  case (1 stash ms)
  then show ?case by (simp add: same_keys_def)
next
  case (2 stash sd sds)
  then show ?case by (simp add: same_keys_def)
next
  case (3 stash sd sds m ms)
  from "3.prems" have k: "map fst sd = map fst m" and rest: "same_keys sds ms"
    by (simp_all add: same_keys_def)
  from k have "set (map fst sd) \<subseteq> set (map fst m)" by simp
  from rebind_live_total [OF this] obtain sd' where
    r: "rebind_live stash m (map fst sd) sd = Inr sd'" by blast
  from rebind_live_keys [OF r] have k': "map fst sd' = map fst sd" by simp
  with k obtain m' where l: "load_state_dict m sd' = Inr m'"
    by (simp add: load_state_dict_def)
  from load_state_dict_keys [OF l] have km: "map fst m' = map fst m" by simp
  from "3.IH" [OF rest] obtain sds1 ms1 where
    "set_params_loop stash sds ms = Inr (sds1, ms1)" "same_keys sds1 ms"
    "map (map fst) ms1 = map (map fst) ms" by blast
  with r l k k' km show ?case by (simp add: same_keys_def)
qed

end
